theory Spec2Isabelle
  imports Complex_Main "HOL-Library.Word"
begin

section \<open>The symmetric race engine of the Temporal Stochastic Unit (src/tsu.cpp)\<close>

text \<open>
  The development embeds \<^verbatim>\<open>run_symmetric_race\<close> (lines 43 to 153 of src/tsu.cpp).
  Its inputs are the \<^verbatim>\<open>float\<close> argument \<^verbatim>\<open>bias\<close> and two hardware sources:
  \<^item> \<^verbatim>\<open>esp_cpu_get_cycle_count()\<close>, read once (line 56): the 32-bit value it returns is
    the parameter \<open>cycle_count\<close>;
  \<^item> \<^verbatim>\<open>esp_timer_get_time()\<close>, read once for \<^verbatim>\<open>start\<close> (line 75) and once in every
    iteration of the loop (line 97): the parameter \<open>clock\<close> gives the value returned by
    each call, \<open>clock 0\<close> for the first one, \<open>clock 1\<close> for the second, and so on.

  Integer types. \<^verbatim>\<open>uint32_t\<close> is \<open>32 word\<close>, with its wrap-around. \<^verbatim>\<open>int64_t\<close> values
  (clock readings, \<^verbatim>\<open>current\<close>, the fields of the result) are \<open>int\<close>: the only
  \<^verbatim>\<open>int64_t\<close> operation of the function is \<^verbatim>\<open>esp_timer_get_time() - start\<close>, on two
  readings of a microsecond counter, and every conversion from and to 32 bits is written
  out (\<open>uint\<close>, \<open>word_of_int\<close>). \<^verbatim>\<open>int\<close> is 32 bits wide on the target; an \<^verbatim>\<open>int\<close>
  expression whose value leaves that range has no defined behaviour in C, which the model
  records as such.
\<close>

subsection \<open>The result structure (lines 17 to 21)\<close>

record TSU_Result =
  winner :: int
  latency :: int
  delta :: int

text \<open>
  What a call does: it returns a result, it never leaves its loop, or it has evaluated an
  expression that C leaves undefined.
\<close>

datatype 'a outcome = Returns 'a | Never_Returns | Undefined_Behaviour

subsection \<open>Single-precision product and conversion to \<^verbatim>\<open>int\<close> (lines 70 and 71)\<close>

text \<open>
  A finite \<^verbatim>\<open>float\<close> is modelled by the rational number it denotes. In \<^verbatim>\<open>bias * 500\<close>
  the constant is converted to \<^verbatim>\<open>float\<close> and the product is rounded to the nearest
  binary32 value, ties to even: 24 significant bits, the smallest quantum being
  \<open>2\<^sup>-\<^sup>1\<^sup>4\<^sup>9\<close>. A product beyond the binary32 range becomes an infinity in C; here it
  stays a number of magnitude at least \<open>2\<^sup>1\<^sup>2\<^sup>7\<close>, and in both readings the conversion to
  \<^verbatim>\<open>int\<close> that follows is undefined. An infinity or a NaN passed as \<^verbatim>\<open>bias\<close> has no
  counterpart here; the conversion of line 70 is undefined for them as well.
\<close>

definition pow2 :: "int \<Rightarrow> rat" where
  "pow2 e = (if 0 \<le> e then 2 ^ nat e else 1 / 2 ^ nat (- e))"

text \<open>The exponent \<open>e\<close> with \<open>2\<^sup>e \<le> x < 2\<^sup>e\<^sup>+\<^sup>1\<close>, for \<open>x > 0\<close>.\<close>

function floor_log2 :: "rat \<Rightarrow> int" where
  "floor_log2 x =
     (if x \<le> 0 then 0
      else if 2 \<le> x then floor_log2 (x / 2) + 1
      else if x < 1 then floor_log2 (x * 2) - 1
      else 0)"
  by pat_completeness auto
termination
proof (relation "measure (\<lambda>x. if 1 \<le> x then nat \<lfloor>x\<rfloor> else nat \<lceil>1 / x\<rceil> + 1)")
  show "wf (measure (\<lambda>x::rat. if 1 \<le> x then nat \<lfloor>x\<rfloor> else nat \<lceil>1 / x\<rceil> + 1))"
    by simp
next
  fix x :: rat
  assume "\<not> x \<le> 0" and "2 \<le> x"
  then have "\<lfloor>x / 2\<rfloor> < \<lfloor>x\<rfloor>" and "0 < \<lfloor>x\<rfloor>"
    by linarith+
  with \<open>2 \<le> x\<close> show "(x / 2, x) \<in> measure (\<lambda>x. if 1 \<le> x then nat \<lfloor>x\<rfloor> else nat \<lceil>1 / x\<rceil> + 1)"
    by simp
next
  fix x :: rat
  assume pos: "\<not> x \<le> 0" and "\<not> 2 \<le> x" and lt: "x < 1"
  from pos lt have inv: "1 < 1 / x"
    by simp
  show "(x * 2, x) \<in> measure (\<lambda>x. if 1 \<le> x then nat \<lfloor>x\<rfloor> else nat \<lceil>1 / x\<rceil> + 1)"
  proof (cases "1 \<le> x * 2")
    case True
    with lt have "\<lfloor>x * 2\<rfloor> = 1"
      by linarith
    moreover from inv have "2 \<le> \<lceil>1 / x\<rceil>"
      by linarith
    ultimately show ?thesis
      using True lt by simp
  next
    case False
    with pos have "2 < 1 / x"
      by (simp add: field_simps)
    moreover have "1 / (x * 2) = (1 / x) / 2"
      by simp
    ultimately have "\<lceil>1 / (x * 2)\<rceil> < \<lceil>1 / x\<rceil>" and "0 < \<lceil>1 / x\<rceil>"
      by linarith+
    with False lt show ?thesis
      by simp
  qed
qed

declare floor_log2.simps [simp del]

definition round_half_even :: "rat \<Rightarrow> int" where
  "round_half_even y =
     (let f = \<lfloor>y\<rfloor>; r = y - of_int f
      in if r < 1 / 2 then f
         else if 1 / 2 < r then f + 1
         else if even f then f else f + 1)"

definition f32_round :: "rat \<Rightarrow> rat" where
  "f32_round x =
     (if x = 0 then 0
      else let e = max (floor_log2 \<bar>x\<bar>) (- 126); q = pow2 (e - 23)
           in of_int (round_half_even (x / q)) * q)"

definition f32_mul :: "rat \<Rightarrow> rat \<Rightarrow> rat" where
  "f32_mul x y = f32_round (x * y)"

text \<open>
  \<^verbatim>\<open>(int)x\<close> discards the fractional part of \<open>x\<close>; the behaviour is undefined when the
  integral part is not an \<^verbatim>\<open>int\<close>.
\<close>

definition in_int_range :: "int \<Rightarrow> bool" where
  "in_int_range i \<longleftrightarrow> - 2147483648 \<le> i \<and> i \<le> 2147483647"

definition c_float_to_int :: "rat \<Rightarrow> int option" where
  "c_float_to_int x =
     (let t = (if 0 \<le> x then \<lfloor>x\<rfloor> else \<lceil>x\<rceil>)
      in if in_int_range t then Some t else None)"

subsection \<open>The thresholds (lines 56, 70 and 71)\<close>

text \<open>
  \<^verbatim>\<open>uint32_t cpu_jitter = (uint32_t)esp_cpu_get_cycle_count() % 5;\<close>
  \<^verbatim>\<open>uint32_t target_a = 1000 - (int)(bias * 500) + cpu_jitter;\<close>
  \<^verbatim>\<open>uint32_t target_b = 1000 + (int)(bias * 500);\<close>
  \<^verbatim>\<open>1000 - (int)(bias * 500)\<close> and \<^verbatim>\<open>1000 + (int)(bias * 500)\<close> are \<^verbatim>\<open>int\<close>
  expressions; adding the unsigned \<^verbatim>\<open>cpu_jitter\<close>, and storing into \<^verbatim>\<open>uint32_t\<close>,
  converts them modulo \<open>2\<^sup>3\<^sup>2\<close>.
\<close>

definition thresholds :: "rat \<Rightarrow> 32 word \<Rightarrow> (32 word \<times> 32 word) option" where
  "thresholds bias cycle_count =
     (let cpu_jitter = cycle_count mod 5
      in case c_float_to_int (f32_mul bias 500) of
           None \<Rightarrow> None
         | Some i \<Rightarrow>
             if in_int_range (1000 - i) \<and> in_int_range (1000 + i)
             then Some (word_of_int (1000 - i) + cpu_jitter, word_of_int (1000 + i))
             else None)"

subsection \<open>The race loop (lines 80 to 120)\<close>

text \<open>
  The state of the loop: the two arrival markers, and the number of calls of
  \<^verbatim>\<open>esp_timer_get_time\<close> made so far (the next call returns \<open>clock (reads s)\<close>).
\<close>

record race_state =
  arrival_a :: "32 word"
  arrival_b :: "32 word"
  reads :: nat

text \<open>
  Lines 105 to 114, for one value of \<^verbatim>\<open>current\<close>. In \<^verbatim>\<open>current >= target_a\<close> the
  \<^verbatim>\<open>uint32_t\<close> threshold is converted to \<^verbatim>\<open>int64_t\<close>, which keeps its value; the stored
  arrival is \<^verbatim>\<open>(uint32_t)current\<close>.
\<close>

definition poll :: "32 word \<Rightarrow> 32 word \<Rightarrow> int \<Rightarrow> race_state \<Rightarrow> race_state" where
  "poll target_a target_b current s =
     s\<lparr>arrival_a :=
          (if arrival_a s = 0 \<and> uint target_a \<le> current then word_of_int current
           else arrival_a s),
       arrival_b :=
          (if arrival_b s = 0 \<and> uint target_b \<le> current then word_of_int current
           else arrival_b s)\<rparr>"

text \<open>One iteration: line 97 reads the clock, lines 105 to 114 update the markers.\<close>

definition iteration :: "(nat \<Rightarrow> int) \<Rightarrow> int \<Rightarrow> 32 word \<Rightarrow> 32 word \<Rightarrow> race_state \<Rightarrow> race_state" where
  "iteration clock start target_a target_b s =
     poll target_a target_b (clock (reads s) - start) (s\<lparr>reads := Suc (reads s)\<rparr>)"

text \<open>
  The loop itself, with the test of line 93 and the \<^verbatim>\<open>break\<close> of line 119. It need not
  return: \<open>None\<close> is a loop that runs forever.
\<close>

partial_function (option) race_loop ::
  "(nat \<Rightarrow> int) \<Rightarrow> int \<Rightarrow> 32 word \<Rightarrow> 32 word \<Rightarrow> race_state \<Rightarrow> race_state option" where
  "race_loop clock start target_a target_b s =
     (if arrival_a s = 0 \<or> arrival_b s = 0
      then (let current = clock (reads s) - start;
                s' = iteration clock start target_a target_b s
            in if 5000 < current then Some s'
               else race_loop clock start target_a target_b s')
      else Some s)"

declare race_loop.simps [code]

subsection \<open>Decision extraction (lines 127 to 152)\<close>

definition decision :: "race_state \<Rightarrow> TSU_Result" where
  "decision s =
     (let w = (if arrival_a s \<le> arrival_b s then 0 else 1);
          l = (if w = 0 then uint (arrival_a s) else uint (arrival_b s));
          d = (if arrival_b s < arrival_a s then uint (arrival_a s - arrival_b s)
               else uint (arrival_b s - arrival_a s))
      in \<lparr>winner = w, latency = l, delta = d\<rparr>)"

subsection \<open>The whole function (lines 43 to 153)\<close>

definition race_init :: race_state where
  "race_init = \<lparr>arrival_a = 0, arrival_b = 0, reads = 1\<rparr>"

definition run_symmetric_race :: "rat \<Rightarrow> 32 word \<Rightarrow> (nat \<Rightarrow> int) \<Rightarrow> TSU_Result outcome" where
  "run_symmetric_race bias cycle_count clock =
     (case thresholds bias cycle_count of
        None \<Rightarrow> Undefined_Behaviour
      | Some (target_a, target_b) \<Rightarrow>
          (let start = clock 0
           in case race_loop clock start target_a target_b race_init of
                None \<Rightarrow> Never_Returns
              | Some s \<Rightarrow> Returns (decision s)))"

subsection \<open>Scripted clocks\<close>

text \<open>A clock that advances by \<open>d\<close> between two readings, starting at \<open>t0\<close>.\<close>

definition fixed_step_clock :: "int \<Rightarrow> int \<Rightarrow> nat \<Rightarrow> int" where
  "fixed_step_clock t0 d k = t0 + int k * d"

text \<open>A clock that returns the readings of a list in turn, then repeats the last one.\<close>

fun scripted_clock :: "int list \<Rightarrow> nat \<Rightarrow> int" where
  "scripted_clock [] k = 0"
| "scripted_clock [x] k = x"
| "scripted_clock (x # y # xs) 0 = x"
| "scripted_clock (x # y # xs) (Suc k) = scripted_clock (y # xs) k"

subsection \<open>The states a run goes through\<close>

text \<open>
  \<open>race_after \<dots> s n\<close> is the state \<open>n\<close> iterations after \<open>s\<close>, were the loop to go on for
  that long. The loop is left after an iteration when both markers are set (the test of
  line 93) or when the reading of that iteration exceeds 5000 (line 119).
\<close>

fun race_after :: "(nat \<Rightarrow> int) \<Rightarrow> int \<Rightarrow> 32 word \<Rightarrow> 32 word \<Rightarrow> race_state \<Rightarrow> nat \<Rightarrow> race_state" where
  "race_after clock start target_a target_b s 0 = s"
| "race_after clock start target_a target_b s (Suc n) =
     iteration clock start target_a target_b (race_after clock start target_a target_b s n)"

definition both_arrived :: "race_state \<Rightarrow> bool" where
  "both_arrived s \<longleftrightarrow> arrival_a s \<noteq> 0 \<and> arrival_b s \<noteq> 0"

definition timed_out :: "(nat \<Rightarrow> int) \<Rightarrow> int \<Rightarrow> race_state \<Rightarrow> bool" where
  "timed_out clock start s \<longleftrightarrow> 5000 < clock (reads s - 1) - start"

definition leaves_loop :: "(nat \<Rightarrow> int) \<Rightarrow> int \<Rightarrow> race_state \<Rightarrow> bool" where
  "leaves_loop clock start s \<longleftrightarrow> both_arrived s \<or> timed_out clock start s"

subsection \<open>The thresholds as the specification words them\<close>

text \<open>
  Section 4.1 of the specification: \<^verbatim>\<open>target_a = baseline - round(bias * bias_scale) + jitter\<close>
  and \<^verbatim>\<open>target_b = baseline + round(bias * bias_scale)\<close>, with baseline 1000 and scale 500.
  This definition follows the specification, not the source; it is only compared with
  \<open>thresholds\<close>.
\<close>

definition spec_thresholds :: "rat \<Rightarrow> int \<Rightarrow> int \<times> int" where
  "spec_thresholds bias jitter =
     (1000 - round (bias * 500) + jitter, 1000 + round (bias * 500))"

section \<open>The single-precision rounding and the conversion to \<^verbatim>\<open>int\<close>\<close>

lemma pow2_pos: "0 < pow2 e"
  by (simp add: pow2_def)

lemma pow2_succ: "pow2 (e + 1) = 2 * pow2 e"
proof (cases "0 \<le> e")
  case True
  then have "nat (e + 1) = Suc (nat e)"
    by simp
  with True show ?thesis
    by (simp add: pow2_def)
next
  case False
  show ?thesis
  proof (cases "e = - 1")
    case True
    then show ?thesis
      by (simp add: pow2_def)
  next
    case neq: False
    with False have "nat (- e) = Suc (nat (- (e + 1)))"
      by simp
    with False neq show ?thesis
      by (simp add: pow2_def)
  qed
qed

lemma pow2_pred: "pow2 (e - 1) = pow2 e / 2"
  using pow2_succ [of "e - 1"] by simp

text \<open>\<open>floor_log2\<close> is the binary exponent of a positive number.\<close>

lemma floor_log2_bounds:
  assumes "0 < x"
  shows "pow2 (floor_log2 x) \<le> x \<and> x < pow2 (floor_log2 x + 1)"
  using assms
proof (induction x rule: floor_log2.induct)
  case (1 x)
  show ?case
  proof (cases "2 \<le> x")
    case True
    define e where "e = floor_log2 (x / 2)"
    from True "1.prems" have "pow2 e \<le> x / 2 \<and> x / 2 < pow2 (e + 1)"
      unfolding e_def by (intro "1.IH"(1)) simp_all
    moreover from True "1.prems" have "floor_log2 x = e + 1"
      unfolding e_def by (subst floor_log2.simps) simp
    moreover have "pow2 (e + 1) = 2 * pow2 e" "pow2 (e + 1 + 1) = 2 * pow2 (e + 1)"
      by (rule pow2_succ)+
    ultimately show ?thesis
      by (simp only:) linarith
  next
    case False
    show ?thesis
    proof (cases "x < 1")
      case True
      define e where "e = floor_log2 (x * 2)"
      from True False "1.prems" have "pow2 e \<le> x * 2 \<and> x * 2 < pow2 (e + 1)"
        unfolding e_def by (intro "1.IH"(2)) simp_all
      moreover from True False "1.prems" have "floor_log2 x = e - 1"
        unfolding e_def by (subst floor_log2.simps) simp
      moreover have "pow2 (e + 1) = 2 * pow2 e" "pow2 (e - 1) = pow2 e / 2" "e - 1 + 1 = e"
        by (simp_all only: pow2_succ pow2_pred diff_add_cancel)
      ultimately show ?thesis
        by (simp only:) linarith
    next
      case ge: False
      with False "1.prems" have "floor_log2 x = 0"
        by (subst floor_log2.simps) simp
      with False ge show ?thesis
        by (simp add: pow2_def)
    qed
  qed
qed

lemma round_half_even_nearest: "\<bar>of_int (round_half_even y) - y\<bar> \<le> 1 / 2"
proof -
  define f where "f = \<lfloor>y\<rfloor>"
  define r where "r = y - of_int f"
  have r: "0 \<le> r" "r < 1"
    unfolding r_def f_def by linarith+
  have y: "y = of_int f + r"
    by (simp add: r_def)
  have "round_half_even y = f \<and> r \<le> 1 / 2 \<or> round_half_even y = f + 1 \<and> 1 / 2 \<le> r"
    unfolding round_half_even_def Let_def f_def [symmetric] r_def [symmetric]
    by (cases "r < 1 / 2"; cases "1 / 2 < r"; cases "even f") simp_all
  then show ?thesis
  proof
    assume "round_half_even y = f \<and> r \<le> 1 / 2"
    with r show ?thesis
      unfolding y by simp
  next
    assume "round_half_even y = f + 1 \<and> 1 / 2 \<le> r"
    with r show ?thesis
      unfolding y by simp
  qed
qed

text \<open>
  The rounded value is a multiple of the quantum of its binade, at most half a quantum away
  from the exact one.
\<close>

lemma f32_round_nearest:
  assumes "x \<noteq> 0"
  defines "q \<equiv> pow2 (max (floor_log2 \<bar>x\<bar>) (- 126) - 23)"
  shows "\<exists>m. f32_round x = of_int m * q \<and> \<bar>f32_round x - x\<bar> \<le> q / 2"
proof -
  have q: "0 < q"
    unfolding q_def by (rule pow2_pos)
  let ?m = "round_half_even (x / q)"
  have r: "f32_round x = of_int ?m * q"
    using assms(1) by (simp add: f32_round_def Let_def q_def)
  have "\<bar>of_int ?m - x / q\<bar> \<le> 1 / 2"
    by (rule round_half_even_nearest)
  then have "\<bar>of_int ?m - x / q\<bar> * q \<le> 1 / 2 * q"
    using q by (intro mult_right_mono) simp_all
  moreover have "\<bar>of_int ?m - x / q\<bar> * q = \<bar>of_int ?m * q - x\<bar>"
  proof -
    have "\<bar>of_int ?m - x / q\<bar> * q = \<bar>(of_int ?m - x / q) * q\<bar>"
      using q by (simp add: abs_mult)
    also have "(of_int ?m - x / q) * q = of_int ?m * q - x"
      using q by (simp add: field_simps)
    finally show ?thesis .
  qed
  ultimately have "\<bar>f32_round x - x\<bar> \<le> q / 2"
    by (simp add: r)
  with r show ?thesis
    by blast
qed

text \<open>The conversion to \<^verbatim>\<open>int\<close> truncates towards zero.\<close>

lemma c_float_to_int_truncates:
  assumes "c_float_to_int x = Some i"
  shows "\<bar>of_int i\<bar> \<le> \<bar>x\<bar> \<and> \<bar>x - of_int i\<bar> < 1 \<and> in_int_range i"
proof (cases "0 \<le> x")
  case True
  with assms have i: "i = \<lfloor>x\<rfloor>" "in_int_range i"
    by (auto simp: c_float_to_int_def Let_def split: if_splits)
  from True have "0 \<le> \<lfloor>x\<rfloor>"
    by simp
  with True i show ?thesis
    by (simp add: abs_if) linarith
next
  case False
  with assms have i: "i = \<lceil>x\<rceil>" "in_int_range i"
    by (auto simp: c_float_to_int_def Let_def split: if_splits)
  from False have "\<lceil>x\<rceil> \<le> 0"
    by (simp add: ceiling_le_iff)
  then have "rat_of_int \<lceil>x\<rceil> \<le> 0"
    by simp
  moreover have "x \<le> rat_of_int \<lceil>x\<rceil>" and "rat_of_int \<lceil>x\<rceil> < x + 1"
    by linarith+
  ultimately have "\<bar>rat_of_int \<lceil>x\<rceil>\<bar> \<le> \<bar>x\<bar> \<and> \<bar>x - rat_of_int \<lceil>x\<rceil>\<bar> < 1"
    using False by linarith
  with i show ?thesis
    by simp
qed

text \<open>
  The biases that \<^verbatim>\<open>app_main\<close> sweeps (line 164). The \<^verbatim>\<open>float\<close> \<^verbatim>\<open>0.95f\<close> is
  \<open>15938355 / 2\<^sup>2\<^sup>4\<close>; its exact product with 500 lies just below 475 and is rounded
  to \<^verbatim>\<open>475.0f\<close>, so that the conversion gives 475 and not 474.
\<close>

lemma test_biases_converted:
  "c_float_to_int (f32_mul 0 500) = Some 0"
  "c_float_to_int (f32_mul (1 / 4) 500) = Some 125"
  "c_float_to_int (f32_mul (3 / 4) 500) = Some 375"
  "c_float_to_int (f32_mul (15938355 / 16777216) 500) = Some 475"
  "\<lfloor>15938355 / 16777216 * (500 :: rat)\<rfloor> = 474"
  by code_simp+

section \<open>Conversions between \<^verbatim>\<open>int64_t\<close> and \<^verbatim>\<open>uint32_t\<close>\<close>

lemma uint_word32:
  "uint (word_of_int x :: 32 word) = x mod 2 ^ 32"
  by (simp add: uint_word_of_int)

lemma uint_word32_of_int:
  assumes "0 \<le> c" and "c < 2 ^ 32"
  shows "uint (word_of_int c :: 32 word) = c"
  using assms by (simp add: uint_word_of_int)

lemma word32_of_int_neq_0:
  assumes "0 < c" and "c < 2 ^ 32"
  shows "(word_of_int c :: 32 word) \<noteq> 0"
proof
  assume "(word_of_int c :: 32 word) = 0"
  then have "uint (word_of_int c :: 32 word) = 0"
    by simp
  with assms show False
    by (simp add: uint_word32_of_int)
qed

lemma word32_of_small_int_eq_0:
  assumes "0 \<le> c" and "c \<le> 5000" and "(word_of_int c :: 32 word) = 0"
  shows "c = 0"
proof -
  from assms(3) have "c mod 2 ^ 32 = 0"
    by (simp add: word_of_int_eq_0_iff mod_eq_0_iff_dvd)
  moreover from assms(1,2) have "c mod 2 ^ 32 = c"
    by simp
  ultimately show ?thesis
    by simp
qed

lemma uint_word_of_nonneg_le:
  assumes "0 \<le> c"
  shows "uint (word_of_int c :: 32 word) \<le> c"
proof -
  have "uint (word_of_int c :: 32 word) = c mod 2 ^ 32"
    by (simp add: uint_word_of_int)
  also from assms have "\<dots> \<le> c"
    by (rule zmod_le_nonneg_dividend)
  finally show ?thesis .
qed

text \<open>A negative \<^verbatim>\<open>int\<close> stored into \<^verbatim>\<open>uint32_t\<close> lands in the upper half of the range.\<close>

lemma wrapped_negative:
  assumes "v < 0" and "1000 - 2 ^ 31 \<le> v" and "u = v mod 2 ^ 32"
  shows "u = 2 ^ 32 + v \<and> 2 ^ 31 < (u :: int)"
proof -
  from assms(1,2) have "(v + 2 ^ 32) mod 2 ^ 32 = v + 2 ^ 32"
    by (intro mod_pos_pos_trivial) simp_all
  then have "v mod 2 ^ 32 = v + 2 ^ 32"
    by simp
  with assms show ?thesis
    by simp
qed

lemma uint_target_a:
  "uint (word_of_int x + cycle_count mod 5 :: 32 word) = (x + uint cycle_count mod 5) mod 2 ^ 32"
proof -
  have "uint (word_of_int x + cycle_count mod 5 :: 32 word)
          = (uint (word_of_int x :: 32 word) + uint (cycle_count mod 5)) mod 2 ^ 32"
    by (simp add: uint_word_ariths)
  also have "\<dots> = (x mod 2 ^ 32 + uint cycle_count mod 5) mod 2 ^ 32"
    by (simp add: uint_word_of_int uint_mod)
  also have "\<dots> = (x + uint cycle_count mod 5) mod 2 ^ 32"
    by (rule mod_add_left_eq)
  finally show ?thesis .
qed

section \<open>Single iterations and the states of a run\<close>

lemma reads_iteration [simp]: "reads (iteration clock start ta tb s) = Suc (reads s)"
  by (simp add: iteration_def poll_def)

lemma reads_race_after [simp]: "reads (race_after clock start ta tb s n) = reads s + n"
  by (induction n) simp_all

lemma race_after_shift:
  "race_after clock start ta tb s (Suc n) =
   race_after clock start ta tb (iteration clock start ta tb s) n"
  by (induction n) simp_all

lemma timed_out_iteration:
  "timed_out clock start (iteration clock start ta tb s) \<longleftrightarrow> 5000 < clock (reads s) - start"
  by (simp add: timed_out_def)

lemma arrival_a_iteration:
  "arrival_a (iteration clock start ta tb s) =
     (if arrival_a s = 0 \<and> uint ta \<le> clock (reads s) - start
      then word_of_int (clock (reads s) - start) else arrival_a s)"
  by (simp add: iteration_def poll_def)

lemma arrival_b_iteration:
  "arrival_b (iteration clock start ta tb s) =
     (if arrival_b s = 0 \<and> uint tb \<le> clock (reads s) - start
      then word_of_int (clock (reads s) - start) else arrival_b s)"
  by (simp add: iteration_def poll_def)

lemma iteration_on:
  "iteration clock start ta tb \<lparr>arrival_a = a, arrival_b = b, reads = n\<rparr> =
     \<lparr>arrival_a = (if a = 0 \<and> uint ta \<le> clock n - start then word_of_int (clock n - start) else a),
      arrival_b = (if b = 0 \<and> uint tb \<le> clock n - start then word_of_int (clock n - start) else b),
      reads = Suc n\<rparr>"
  by (simp add: iteration_def poll_def)

lemma race_init_stays: "\<not> leaves_loop clock (clock 0) race_init"
  by (simp add: leaves_loop_def both_arrived_def timed_out_def race_init_def)

lemma race_init_not_timed_out: "\<not> timed_out clock (clock 0) race_init"
  by (simp add: timed_out_def race_init_def)

text \<open>A marker that is set keeps its value in all later iterations.\<close>

lemma arrival_a_kept:
  assumes "arrival_a s \<noteq> 0"
  shows "arrival_a (race_after clock start ta tb s k) = arrival_a s"
  using assms by (induction k) (simp_all add: arrival_a_iteration)

lemma arrival_b_kept:
  assumes "arrival_b s \<noteq> 0"
  shows "arrival_b (race_after clock start ta tb s k) = arrival_b s"
  using assms by (induction k) (simp_all add: arrival_b_iteration)

text \<open>A path is not crossed while every reading stays below its threshold.\<close>

lemma arrival_a_not_crossed:
  assumes "\<forall>k. 0 < k \<and> k \<le> n \<longrightarrow> clock k - start < uint ta"
  shows "arrival_a (race_after clock start ta tb race_init n) = 0"
  using assms
proof (induction n)
  case 0
  show ?case
    by (simp add: race_init_def)
next
  case (Suc n)
  then have "arrival_a (race_after clock start ta tb race_init n) = 0"
    and "clock (Suc n) - start < uint ta"
    by simp_all
  then show ?case
    by (simp add: arrival_a_iteration race_init_def)
qed

lemma arrival_b_not_crossed:
  assumes "\<forall>k. 0 < k \<and> k \<le> n \<longrightarrow> clock k - start < uint tb"
  shows "arrival_b (race_after clock start ta tb race_init n) = 0"
  using assms
proof (induction n)
  case 0
  show ?case
    by (simp add: race_init_def)
next
  case (Suc n)
  then have "arrival_b (race_after clock start ta tb race_init n) = 0"
    and "clock (Suc n) - start < uint tb"
    by simp_all
  then show ?case
    by (simp add: arrival_b_iteration race_init_def)
qed

lemma race_after_same_target:
  assumes "arrival_a s = arrival_b s"
  shows "arrival_a (race_after clock start t t s n) = arrival_b (race_after clock start t t s n)"
  using assms by (induction n) (simp_all add: arrival_a_iteration arrival_b_iteration)

section \<open>The loop and its exit\<close>

text \<open>The loop returns the state of the first iteration after which it is left.\<close>

lemma race_loop_first_exit:
  assumes "\<not> timed_out clock start s"
    and "leaves_loop clock start (race_after clock start ta tb s m)"
    and "\<forall>j<m. \<not> leaves_loop clock start (race_after clock start ta tb s j)"
  shows "race_loop clock start ta tb s = Some (race_after clock start ta tb s m)"
  using assms
proof (induction m arbitrary: s)
  case 0
  then have "both_arrived s"
    by (simp add: leaves_loop_def)
  then show ?case
    by (subst race_loop.simps) (simp add: both_arrived_def)
next
  case (Suc m)
  let ?s' = "iteration clock start ta tb s"
  from Suc.prems(3) have "\<not> leaves_loop clock start s"
    by (metis race_after.simps(1) zero_less_Suc)
  then have open_s: "arrival_a s = 0 \<or> arrival_b s = 0"
    by (auto simp: leaves_loop_def both_arrived_def)
  show ?case
  proof (cases "5000 < clock (reads s) - start")
    case True
    then have "leaves_loop clock start (race_after clock start ta tb s (Suc 0))"
      by (simp add: leaves_loop_def timed_out_iteration)
    with Suc.prems(3) have "m = 0"
      by (metis Suc_less_eq not_gr_zero)
    with True open_s show ?thesis
      by (subst race_loop.simps) (simp add: Let_def)
  next
    case False
    then have "\<not> timed_out clock start ?s'"
      by (simp add: timed_out_iteration)
    moreover from Suc.prems(2) have "leaves_loop clock start (race_after clock start ta tb ?s' m)"
      by (simp only: race_after_shift)
    moreover from Suc.prems(3)
    have "\<forall>j<m. \<not> leaves_loop clock start (race_after clock start ta tb ?s' j)"
      by (metis Suc_less_eq race_after_shift)
    ultimately have "race_loop clock start ta tb ?s' = Some (race_after clock start ta tb ?s' m)"
      by (rule Suc.IH)
    with False open_s show ?thesis
      by (subst race_loop.simps) (simp add: Let_def race_after_shift del: race_after.simps)
  qed
qed

lemmas race_loop_induct = race_loop.raw_induct [rotated 1, consumes 1, case_names iterate]

text \<open>Conversely, a loop that returns has such a first iteration.\<close>

lemma race_loop_exit_index:
  assumes "race_loop clock start ta tb s = Some r"
    and "\<not> timed_out clock start s"
  shows "\<exists>m. r = race_after clock start ta tb s m
           \<and> leaves_loop clock start (race_after clock start ta tb s m)
           \<and> (\<forall>j<m. \<not> leaves_loop clock start (race_after clock start ta tb s j))"
  using assms
proof (induction rule: race_loop_induct)
  case (iterate loop clock start ta tb s r)
  let ?s' = "iteration clock start ta tb s"
  show ?case
  proof (cases "arrival_a s = 0 \<or> arrival_b s = 0")
    case False
    with iterate(2) have "r = s"
      by simp
    moreover from False have "leaves_loop clock start s"
      by (simp add: leaves_loop_def both_arrived_def)
    ultimately show ?thesis
      by (intro exI [of _ 0]) simp
  next
    case open_s: True
    with iterate(3) have here: "\<not> leaves_loop clock start s"
      by (auto simp: leaves_loop_def both_arrived_def)
    show ?thesis
    proof (cases "5000 < clock (reads s) - start")
      case True
      with open_s iterate(2) have "r = ?s'"
        by (simp add: Let_def)
      moreover from True have "leaves_loop clock start ?s'"
        by (simp add: leaves_loop_def timed_out_iteration)
      ultimately show ?thesis
        using here by (intro exI [of _ "Suc 0"]) simp
    next
      case False
      with open_s iterate(2) have "loop clock start ta tb ?s' = Some r"
        by (simp add: Let_def)
      moreover from False have "\<not> timed_out clock start ?s'"
        by (simp add: timed_out_iteration)
      ultimately obtain m where m: "r = race_after clock start ta tb ?s' m"
        "leaves_loop clock start (race_after clock start ta tb ?s' m)"
        "\<forall>j<m. \<not> leaves_loop clock start (race_after clock start ta tb ?s' j)"
        using iterate(1) by blast
      have "\<forall>j<Suc m. \<not> leaves_loop clock start (race_after clock start ta tb s j)"
      proof (intro allI impI)
        fix j
        assume "j < Suc m"
        then show "\<not> leaves_loop clock start (race_after clock start ta tb s j)"
          using here m(3)
          by (cases j) (simp_all only: race_after_shift race_after.simps(1) Suc_less_eq, simp_all)
      qed
      moreover
      have "race_after clock start ta tb s (Suc m) = race_after clock start ta tb ?s' m"
        by (rule race_after_shift)
      ultimately show ?thesis
        using m(1,2) by (intro exI [of _ "Suc m"]) (simp del: race_after.simps)
    qed
  qed
qed

text \<open>If the loop is left after some iteration, there is a first such iteration.\<close>

lemma first_exit_exists:
  assumes "leaves_loop clock start (race_after clock start ta tb s n)"
  shows "\<exists>m\<le>n. leaves_loop clock start (race_after clock start ta tb s m) \<and>
           (\<forall>j<m. \<not> leaves_loop clock start (race_after clock start ta tb s j))"
proof -
  let ?P = "\<lambda>m. leaves_loop clock start (race_after clock start ta tb s m)"
  from assms have "?P (LEAST m. ?P m)"
    by (rule LeastI)
  moreover from assms have "(LEAST m. ?P m) \<le> n"
    by (rule Least_le)
  moreover have "\<forall>j<(LEAST m. ?P m). \<not> ?P j"
    using not_less_Least by blast
  ultimately show ?thesis
    by blast
qed

text \<open>A reading more than 5000 after the start ends the loop, whatever the thresholds.\<close>

lemma race_loop_returns:
  assumes "5000 < clock (Suc n) - clock 0"
  shows "\<exists>s. race_loop clock (clock 0) ta tb race_init = Some s"
proof -
  let ?after = "race_after clock (clock 0) ta tb race_init"
  from assms have "leaves_loop clock (clock 0) (?after (Suc n))"
    by (simp add: leaves_loop_def timed_out_def race_init_def del: race_after.simps)
  then obtain m where "leaves_loop clock (clock 0) (?after m)"
    "\<forall>j<m. \<not> leaves_loop clock (clock 0) (?after j)"
    using first_exit_exists by blast
  then have "race_loop clock (clock 0) ta tb race_init = Some (?after m)"
    by (intro race_loop_first_exit race_init_not_timed_out)
  then show ?thesis ..
qed

section \<open>The thresholds, the decision and the call\<close>

lemma thresholds_Some:
  assumes "thresholds bias cycle_count = Some (target_a, target_b)"
  obtains i where "c_float_to_int (f32_mul bias 500) = Some i"
    "in_int_range (1000 - i)" "in_int_range (1000 + i)"
    "target_a = word_of_int (1000 - i) + cycle_count mod 5"
    "target_b = word_of_int (1000 + i)"
  using assms by (auto simp: thresholds_def Let_def split: option.splits if_splits)

text \<open>The thresholds use the cycle counter modulo 5 only.\<close>

lemma thresholds_jitter_cong:
  assumes "cycle_count' mod 5 = (cycle_count :: 32 word) mod 5"
  shows "thresholds bias cycle_count' = thresholds bias cycle_count"
  using assms by (simp add: thresholds_def)

lemma winner_decision: "winner (decision s) = (if arrival_a s \<le> arrival_b s then 0 else 1)"
  by (simp add: decision_def Let_def)

lemma latency_decision:
  "latency (decision s) = min (uint (arrival_a s)) (uint (arrival_b s))"
  by (simp add: decision_def Let_def word_le_def min_def)

lemma delta_decision:
  "delta (decision s) = \<bar>uint (arrival_a s) - uint (arrival_b s)\<bar>"
proof (cases "arrival_b s < arrival_a s")
  case True
  then have "uint (arrival_a s - arrival_b s) = uint (arrival_a s) - uint (arrival_b s)"
    by (simp add: uint_sub_lem [THEN iffD1] word_less_def)
  with True show ?thesis
    by (simp add: decision_def Let_def word_less_def)
next
  case False
  then have "uint (arrival_b s - arrival_a s) = uint (arrival_b s) - uint (arrival_a s)"
    by (simp add: uint_sub_lem [THEN iffD1] word_less_def)
  with False show ?thesis
    by (simp add: decision_def Let_def word_less_def)
qed

text \<open>A call that returns has computed its thresholds and left its loop.\<close>

lemma run_symmetric_race_Returns:
  assumes "run_symmetric_race bias cycle_count clock = Returns r"
  obtains target_a target_b s where
    "thresholds bias cycle_count = Some (target_a, target_b)"
    "race_loop clock (clock 0) target_a target_b race_init = Some s"
    "r = decision s"
  using assms
  by (auto simp: run_symmetric_race_def Let_def split: option.splits)

lemma run_symmetric_race_decision:
  assumes "thresholds bias cycle_count = Some (target_a, target_b)"
    and "race_loop clock (clock 0) target_a target_b race_init = Some s"
  shows "run_symmetric_race bias cycle_count clock = Returns (decision s)"
  using assms by (simp add: run_symmetric_race_def)

text \<open>
  Lines 70 and 71 are defined exactly when the product converts to an \<^verbatim>\<open>int\<close> \<open>i\<close> of
  magnitude at most 2147482647: then neither \<open>1000 - i\<close> nor \<open>1000 + i\<close> leaves the range
  of \<^verbatim>\<open>int\<close>. Nothing else in the function is undefined.
\<close>

lemma thresholds_defined:
  assumes "c_float_to_int (f32_mul bias 500) = Some i" and "\<bar>i\<bar> \<le> 2147482647"
  shows "thresholds bias cycle_count
           = Some (word_of_int (1000 - i) + cycle_count mod 5, word_of_int (1000 + i))"
proof -
  from assms(2) have "in_int_range (1000 - i)" and "in_int_range (1000 + i)"
    unfolding in_int_range_def by linarith+
  with assms(1) show ?thesis
    by (simp add: thresholds_def)
qed

lemma thresholds_defined_iff:
  "thresholds bias cycle_count \<noteq> None \<longleftrightarrow>
     (\<exists>i. c_float_to_int (f32_mul bias 500) = Some i \<and> \<bar>i\<bar> \<le> 2147482647)"
proof (cases "c_float_to_int (f32_mul bias 500)")
  case None
  then show ?thesis
    by (simp add: thresholds_def)
next
  case (Some i)
  then have "in_int_range i"
    using c_float_to_int_truncates by blast
  then have "in_int_range (1000 - i) \<and> in_int_range (1000 + i) \<longleftrightarrow> \<bar>i\<bar> \<le> 2147482647"
    by (auto simp: in_int_range_def)
  with Some show ?thesis
    by (simp add: thresholds_def)
qed

lemma run_symmetric_race_undefined_iff:
  "run_symmetric_race bias cycle_count clock = Undefined_Behaviour \<longleftrightarrow>
     thresholds bias cycle_count = None"
  by (simp add: run_symmetric_race_def Let_def split: option.split)

text \<open>A call whose thresholds are computed returns once a reading is late enough.\<close>

lemma run_symmetric_race_returns:
  assumes "thresholds bias cycle_count = Some (ta, tb)"
    and "5000 < clock (Suc n) - clock 0"
  shows "\<exists>r. run_symmetric_race bias cycle_count clock = Returns r"
proof -
  from assms(2) obtain s where "race_loop clock (clock 0) ta tb race_init = Some s"
    using race_loop_returns by blast
  with assms(1) have "run_symmetric_race bias cycle_count clock = Returns (decision s)"
    by (rule run_symmetric_race_decision)
  then show ?thesis ..
qed

section \<open>Latency and delta at the exit of the loop\<close>

text \<open>
  Claim C1. Whenever \<open>run_symmetric_race\<close> returns, the latency it returns is the smaller
  of the two arrival markers held when the loop was left, and the delta is the absolute
  value of their difference. The state \<open>s\<close> is any state the loop can be left in, so this
  covers a loop left by the timeout with one or both markers still at the sentinel 0.
\<close>

theorem latency_is_min_and_delta_is_distance:
  assumes "run_symmetric_race bias cycle_count clock = Returns r"
  shows "\<exists>target_a target_b s.
           thresholds bias cycle_count = Some (target_a, target_b) \<and>
           race_loop clock (clock 0) target_a target_b race_init = Some s \<and>
           latency r = min (uint (arrival_a s)) (uint (arrival_b s)) \<and>
           delta r = \<bar>uint (arrival_a s) - uint (arrival_b s)\<bar>"
proof -
  from assms obtain target_a target_b s where
    "thresholds bias cycle_count = Some (target_a, target_b)"
    "race_loop clock (clock 0) target_a target_b race_init = Some s"
    "r = decision s"
    by (rule run_symmetric_race_Returns)
  then show ?thesis
    by (auto simp: latency_decision delta_decision)
qed

text \<open>
  A run left by the timeout with the marker of A at the sentinel: bias 3 puts
  \<^verbatim>\<open>target_a\<close> at 4294966796, and the first reading is 6000.
\<close>

theorem latency_is_min_and_delta_is_distance_witness:
  "run_symmetric_race 3 0 (fixed_step_clock 0 6000)
     = Returns \<lparr>winner = 0, latency = 0, delta = 6000\<rparr> \<and>
   (\<exists>target_a target_b s.
      thresholds 3 0 = Some (target_a, target_b) \<and>
      race_loop (fixed_step_clock 0 6000) (fixed_step_clock 0 6000 0) target_a target_b race_init
        = Some s \<and>
      latency \<lparr>winner = 0, latency = 0, delta = 6000\<rparr>
        = min (uint (arrival_a s)) (uint (arrival_b s)) \<and>
      delta \<lparr>winner = 0, latency = 0, delta = 6000\<rparr>
        = \<bar>uint (arrival_a s) - uint (arrival_b s)\<bar>)"
proof -
  have run: "run_symmetric_race 3 0 (fixed_step_clock 0 6000)
               = Returns \<lparr>winner = 0, latency = 0, delta = 6000\<rparr>"
    by code_simp
  from latency_is_min_and_delta_is_distance [OF run] run show ?thesis
    by blast
qed

section \<open>Thresholds computed as zero or negative\<close>

text \<open>The first poll of a path whose stored threshold is 0.\<close>

lemma first_poll_of_zero_threshold:
  shows "uint ta = 0 \<Longrightarrow> 0 \<le> clock 1 - clock 0 \<Longrightarrow>
           arrival_a (race_after clock (clock 0) ta tb race_init 1) = word_of_int (clock 1 - clock 0)"
    and "uint tb = 0 \<Longrightarrow> 0 \<le> clock 1 - clock 0 \<Longrightarrow>
           arrival_b (race_after clock (clock 0) ta tb race_init 1) = word_of_int (clock 1 - clock 0)"
  by (simp_all add: arrival_a_iteration arrival_b_iteration race_init_def)

lemma first_poll_recorded:
  assumes "0 < c" and "c < 2 ^ 32" and "m = (word_of_int c :: 32 word)"
  shows "uint m = c"
  using assms by (simp add: uint_word32_of_int)

text \<open>
  Claim C2, amended. Let \<open>i\<close> be \<^verbatim>\<open>(int)(bias * 500)\<close>, of magnitude at most 2147482647, so
  that lines 70 and 71 are defined; the thresholds are computed as \<open>1000 - i + jitter\<close> and
  \<open>1000 + i\<close>. Then, whatever their sign, the thresholds are stored, the call has a defined
  behaviour, and it returns a result as soon as some reading is more than 5000 after the
  start. A threshold computed as 0 is stored as 0: at the first poll a strictly positive
  elapsed time below \<open>2\<^sup>3\<^sup>2\<close> is recorded as the arrival of the path, and an elapsed time
  of 0 leaves its marker at 0, the sentinel, so that the arrival is deferred. A threshold
  computed as negative is stored as \<^verbatim>\<open>uint32_t\<close>: it becomes \<open>2\<^sup>3\<^sup>2\<close> plus its value,
  more than \<open>2\<^sup>3\<^sup>1\<close>, and the marker of the path stays 0 through any number \<open>n\<close> of polls
  whose elapsed times are below the stored threshold.
\<close>

theorem nonpositive_thresholds:
  assumes "c_float_to_int (f32_mul bias 500) = Some i" and "\<bar>i\<bar> \<le> 2147482647"
  shows "\<exists>target_a target_b.
    thresholds bias cycle_count = Some (target_a, target_b) \<and>
    run_symmetric_race bias cycle_count clock \<noteq> Undefined_Behaviour \<and>
    (5000 < clock (Suc m) - clock 0 \<longrightarrow>
       (\<exists>r. run_symmetric_race bias cycle_count clock = Returns r)) \<and>
    (1000 - i + uint cycle_count mod 5 = 0 \<longrightarrow>
       target_a = 0 \<and>
       (0 < clock 1 - clock 0 \<and> clock 1 - clock 0 < 2 ^ 32 \<longrightarrow>
          uint (arrival_a (race_after clock (clock 0) target_a target_b race_init 1))
            = clock 1 - clock 0) \<and>
       (clock 1 - clock 0 = 0 \<longrightarrow>
          arrival_a (race_after clock (clock 0) target_a target_b race_init 1) = 0)) \<and>
    (1000 + i = 0 \<longrightarrow>
       target_b = 0 \<and>
       (0 < clock 1 - clock 0 \<and> clock 1 - clock 0 < 2 ^ 32 \<longrightarrow>
          uint (arrival_b (race_after clock (clock 0) target_a target_b race_init 1))
            = clock 1 - clock 0) \<and>
       (clock 1 - clock 0 = 0 \<longrightarrow>
          arrival_b (race_after clock (clock 0) target_a target_b race_init 1) = 0)) \<and>
    (1000 - i + uint cycle_count mod 5 < 0 \<longrightarrow>
       uint target_a = 2 ^ 32 + (1000 - i + uint cycle_count mod 5) \<and> 2 ^ 31 < uint target_a \<and>
       ((\<forall>k. 0 < k \<and> k \<le> n \<longrightarrow> clock k - clock 0 < uint target_a) \<longrightarrow>
          arrival_a (race_after clock (clock 0) target_a target_b race_init n) = 0)) \<and>
    (1000 + i < 0 \<longrightarrow>
       uint target_b = 2 ^ 32 + (1000 + i) \<and> 2 ^ 31 < uint target_b \<and>
       ((\<forall>k. 0 < k \<and> k \<le> n \<longrightarrow> clock k - clock 0 < uint target_b) \<longrightarrow>
          arrival_b (race_after clock (clock 0) target_a target_b race_init n) = 0))"
proof -
  define j where "j = uint cycle_count mod 5"
  define target_a :: "32 word" where "target_a = word_of_int (1000 - i) + cycle_count mod 5"
  define target_b :: "32 word" where "target_b = word_of_int (1000 + i)"
  define c where "c = clock 1 - clock 0"
  let ?after = "race_after clock (clock 0) target_a target_b race_init"
  have j: "0 \<le> j" "j < 5"
    by (simp_all add: j_def)
  from assms have t: "thresholds bias cycle_count = Some (target_a, target_b)"
    unfolding target_a_def target_b_def by (rule thresholds_defined)
  have ua: "uint target_a = (1000 - i + j) mod 2 ^ 32"
    unfolding target_a_def j_def by (rule uint_target_a)
  have ub: "uint target_b = (1000 + i) mod 2 ^ 32"
    unfolding target_b_def by (rule uint_word32)
  from assms(2) have range: "- 2147482647 \<le> i" "i \<le> 2147482647"
    by simp_all
  have defined: "run_symmetric_race bias cycle_count clock \<noteq> Undefined_Behaviour"
    using t by (simp add: run_symmetric_race_undefined_iff)
  have returns: "\<exists>r. run_symmetric_race bias cycle_count clock = Returns r"
    if "5000 < clock (Suc m) - clock 0"
    using t that by (rule run_symmetric_race_returns)
  have za: "target_a = 0 \<and> (0 < c \<and> c < 2 ^ 32 \<longrightarrow> uint (arrival_a (?after 1)) = c) \<and>
            (c = 0 \<longrightarrow> arrival_a (?after 1) = 0)"
    if "1000 - i + j = 0"
  proof -
    from that ua have u: "uint target_a = 0"
      by simp
    then have "target_a = 0"
      by (simp add: word_uint_eq_iff)
    moreover have "arrival_a (?after 1) = word_of_int c" if "0 \<le> c"
      using u that unfolding c_def by (rule first_poll_of_zero_threshold)
    then have "uint (arrival_a (?after 1)) = c" if "0 < c" "c < 2 ^ 32"
      using that by (intro first_poll_recorded) simp_all
    moreover have "arrival_a (?after 1) = 0" if "c = 0"
      using first_poll_of_zero_threshold(1) [OF u, of clock target_b] that
      by (simp add: c_def)
    ultimately show ?thesis
      by blast
  qed
  have zb: "target_b = 0 \<and> (0 < c \<and> c < 2 ^ 32 \<longrightarrow> uint (arrival_b (?after 1)) = c) \<and>
            (c = 0 \<longrightarrow> arrival_b (?after 1) = 0)"
    if "1000 + i = 0"
  proof -
    from that ub have u: "uint target_b = 0"
      by simp
    then have "target_b = 0"
      by (simp add: word_uint_eq_iff)
    moreover have "arrival_b (?after 1) = word_of_int c" if "0 \<le> c"
      using u that unfolding c_def by (rule first_poll_of_zero_threshold)
    then have "uint (arrival_b (?after 1)) = c" if "0 < c" "c < 2 ^ 32"
      using that by (intro first_poll_recorded) simp_all
    moreover have "arrival_b (?after 1) = 0" if "c = 0"
      using first_poll_of_zero_threshold(2) [OF u, of clock target_a] that
      by (simp add: c_def)
    ultimately show ?thesis
      by blast
  qed
  have na: "uint target_a = 2 ^ 32 + (1000 - i + j) \<and> 2 ^ 31 < uint target_a"
    if "1000 - i + j < 0"
    using that range j ua by (intro wrapped_negative) simp_all
  have nb: "uint target_b = 2 ^ 32 + (1000 + i) \<and> 2 ^ 31 < uint target_b"
    if "1000 + i < 0"
    using that range ub by (intro wrapped_negative) simp_all
  have ca: "arrival_a (?after n) = 0"
    if "\<forall>k. 0 < k \<and> k \<le> n \<longrightarrow> clock k - clock 0 < uint target_a"
    using that by (rule arrival_a_not_crossed)
  have cb: "arrival_b (?after n) = 0"
    if "\<forall>k. 0 < k \<and> k \<le> n \<longrightarrow> clock k - clock 0 < uint target_b"
    using that by (rule arrival_b_not_crossed)
  show ?thesis
    using t defined returns za zb na nb ca cb unfolding j_def c_def
    by (intro exI [of _ target_a] exI [of _ target_b]) blast
qed

text \<open>
  With a clock advancing by 1000: bias 2 and -2 give a threshold 0 for A and for B, crossed
  at the first reading, 1000; bias 3 and -3 give a threshold -500, stored as 4294966796 and
  not crossed in six polls. With bias 2 and the readings 0, 0, 7, 3000, the first elapsed
  time is 0 and the marker of A stays 0.
\<close>

theorem nonpositive_thresholds_witness:
  "(c_float_to_int (f32_mul 2 500) = Some 1000 \<and> thresholds 2 0 = Some (0, 2000) \<and>
    run_symmetric_race 2 0 (fixed_step_clock 0 1000) \<noteq> Undefined_Behaviour \<and>
    (\<exists>r. run_symmetric_race 2 0 (fixed_step_clock 0 1000) = Returns r) \<and>
    uint (arrival_a (race_after (fixed_step_clock 0 1000) (fixed_step_clock 0 1000 0)
      0 2000 race_init 1)) = 1000) \<and>
   (c_float_to_int (f32_mul (- 2) 500) = Some (- 1000) \<and> thresholds (- 2) 0 = Some (2000, 0) \<and>
    uint (arrival_b (race_after (fixed_step_clock 0 1000) (fixed_step_clock 0 1000 0)
      2000 0 race_init 1)) = 1000) \<and>
   (arrival_a (race_after (scripted_clock [0, 0, 7, 3000]) (scripted_clock [0, 0, 7, 3000] 0)
      0 2000 race_init 1) = 0) \<and>
   (c_float_to_int (f32_mul 3 500) = Some 1500 \<and> thresholds 3 0 = Some (4294966796, 2500) \<and>
    uint (4294966796 :: 32 word) = 2 ^ 32 + (1000 - 1500 + uint (0 :: 32 word) mod 5) \<and>
    arrival_a (race_after (fixed_step_clock 0 1000) (fixed_step_clock 0 1000 0)
      4294966796 2500 race_init 6) = 0) \<and>
   (c_float_to_int (f32_mul (- 3) 500) = Some (- 1500) \<and>
    thresholds (- 3) 0 = Some (2500, 4294966796) \<and>
    uint (4294966796 :: 32 word) = 2 ^ 32 + (1000 + - 1500) \<and>
    arrival_b (race_after (fixed_step_clock 0 1000) (fixed_step_clock 0 1000 0)
      2500 4294966796 race_init 6) = 0)"
proof -
  let ?fixed = "fixed_step_clock 0 1000"
  let ?script = "scripted_clock [0, 0, 7, 3000]"
  have t: "thresholds 2 0 = Some (0, 2000)" "thresholds (- 2) 0 = Some (2000, 0)"
    "thresholds 3 0 = Some (4294966796, 2500)" "thresholds (- 3) 0 = Some (2500, 4294966796)"
    by code_simp+
  have i: "c_float_to_int (f32_mul 2 500) = Some 1000"
    "c_float_to_int (f32_mul (- 2) 500) = Some (- 1000)"
    "c_float_to_int (f32_mul 3 500) = Some 1500"
    "c_float_to_int (f32_mul (- 3) 500) = Some (- 1500)"
    by code_simp+
  have small: "\<bar>1000 :: int\<bar> \<le> 2147482647" "\<bar>- 1000 :: int\<bar> \<le> 2147482647"
    "\<bar>1500 :: int\<bar> \<le> 2147482647" "\<bar>- 1500 :: int\<bar> \<le> 2147482647"
    by simp_all
  have first: "0 < ?fixed 1 - ?fixed 0 \<and> ?fixed 1 - ?fixed 0 < 2 ^ 32"
    and first_val: "?fixed 1 - ?fixed 0 = 1000"
    and late: "5000 < ?fixed (Suc 5) - ?fixed 0"
    by (simp_all add: fixed_step_clock_def)
  have still: "?script 1 - ?script 0 = 0"
    by code_simp
  have below: "\<forall>k. 0 < k \<and> k \<le> 6 \<longrightarrow> ?fixed k - ?fixed 0 < uint (4294966796 :: 32 word)"
    by (simp add: fixed_step_clock_def)
  have zero: "1000 - 1000 + uint (0 :: 32 word) mod 5 = 0" "1000 + - 1000 = (0 :: int)"
    and neg: "1000 - 1500 + uint (0 :: 32 word) mod 5 < 0" "1000 + - 1500 < (0 :: int)"
    by simp_all
  from nonpositive_thresholds [OF i(1) small(1), of 0 ?fixed 5 0]
  obtain ta tb where a: "thresholds 2 0 = Some (ta, tb)"
    "run_symmetric_race 2 0 ?fixed \<noteq> Undefined_Behaviour"
    "5000 < ?fixed (Suc 5) - ?fixed 0 \<longrightarrow> (\<exists>r. run_symmetric_race 2 0 ?fixed = Returns r)"
    "1000 - 1000 + uint (0 :: 32 word) mod 5 = 0 \<longrightarrow> ta = 0 \<and>
       (0 < ?fixed 1 - ?fixed 0 \<and> ?fixed 1 - ?fixed 0 < 2 ^ 32 \<longrightarrow>
          uint (arrival_a (race_after ?fixed (?fixed 0) ta tb race_init 1)) = ?fixed 1 - ?fixed 0) \<and>
       (?fixed 1 - ?fixed 0 = 0 \<longrightarrow> arrival_a (race_after ?fixed (?fixed 0) ta tb race_init 1) = 0)"
    by (elim exE conjE)
  from a(1) t(1) have ab: "ta = 0" "tb = 2000"
    by simp_all
  from a(3) late have 1: "\<exists>r. run_symmetric_race 2 0 ?fixed = Returns r"
    by (rule mp)
  from a(4) [THEN mp, OF zero(1), THEN conjunct2, THEN conjunct1, THEN mp, OF first]
  have 2: "uint (arrival_a (race_after ?fixed (?fixed 0) 0 2000 race_init 1)) = 1000"
    unfolding ab first_val .
  from nonpositive_thresholds [OF i(1) small(1), of 0 ?script 0 0]
  obtain ta' tb' where s: "thresholds 2 0 = Some (ta', tb')"
    "1000 - 1000 + uint (0 :: 32 word) mod 5 = 0 \<longrightarrow> ta' = 0 \<and>
       (0 < ?script 1 - ?script 0 \<and> ?script 1 - ?script 0 < 2 ^ 32 \<longrightarrow>
          uint (arrival_a (race_after ?script (?script 0) ta' tb' race_init 1))
            = ?script 1 - ?script 0) \<and>
       (?script 1 - ?script 0 = 0 \<longrightarrow>
          arrival_a (race_after ?script (?script 0) ta' tb' race_init 1) = 0)"
    by (elim exE conjE)
  from s(1) t(1) have ab': "ta' = 0" "tb' = 2000"
    by simp_all
  from s(2) [THEN mp, OF zero(1), THEN conjunct2, THEN conjunct2, THEN mp, OF still]
  have 3: "arrival_a (race_after ?script (?script 0) 0 2000 race_init 1) = 0"
    unfolding ab' .
  from nonpositive_thresholds [OF i(2) small(2), of 0 ?fixed 5 0]
  obtain ta tb where b: "thresholds (- 2) 0 = Some (ta, tb)"
    "1000 + - 1000 = (0 :: int) \<longrightarrow> tb = 0 \<and>
       (0 < ?fixed 1 - ?fixed 0 \<and> ?fixed 1 - ?fixed 0 < 2 ^ 32 \<longrightarrow>
          uint (arrival_b (race_after ?fixed (?fixed 0) ta tb race_init 1)) = ?fixed 1 - ?fixed 0) \<and>
       (?fixed 1 - ?fixed 0 = 0 \<longrightarrow> arrival_b (race_after ?fixed (?fixed 0) ta tb race_init 1) = 0)"
    by (elim exE conjE)
  from b(1) t(2) have bb: "ta = 2000" "tb = 0"
    by simp_all
  from b(2) [THEN mp, OF zero(2), THEN conjunct2, THEN conjunct1, THEN mp, OF first]
  have 4: "uint (arrival_b (race_after ?fixed (?fixed 0) 2000 0 race_init 1)) = 1000"
    unfolding bb first_val .
  from nonpositive_thresholds [OF i(3) small(3), of 0 ?fixed 5 6]
  obtain ta tb where c: "thresholds 3 0 = Some (ta, tb)"
    "1000 - 1500 + uint (0 :: 32 word) mod 5 < 0 \<longrightarrow>
       uint ta = 2 ^ 32 + (1000 - 1500 + uint (0 :: 32 word) mod 5) \<and> 2 ^ 31 < uint ta \<and>
       ((\<forall>k. 0 < k \<and> k \<le> 6 \<longrightarrow> ?fixed k - ?fixed 0 < uint ta) \<longrightarrow>
          arrival_a (race_after ?fixed (?fixed 0) ta tb race_init 6) = 0)"
    by (elim exE conjE)
  from c(1) t(3) have cb: "ta = 4294966796" "tb = 2500"
    by simp_all
  note c' = c(2) [THEN mp, OF neg(1), unfolded cb]
  note 5 = c' [THEN conjunct1] c' [THEN conjunct2, THEN conjunct2, THEN mp, OF below]
  from nonpositive_thresholds [OF i(4) small(4), of 0 ?fixed 5 6]
  obtain ta tb where d: "thresholds (- 3) 0 = Some (ta, tb)"
    "1000 + - 1500 < (0 :: int) \<longrightarrow>
       uint tb = 2 ^ 32 + (1000 + - 1500) \<and> 2 ^ 31 < uint tb \<and>
       ((\<forall>k. 0 < k \<and> k \<le> 6 \<longrightarrow> ?fixed k - ?fixed 0 < uint tb) \<longrightarrow>
          arrival_b (race_after ?fixed (?fixed 0) ta tb race_init 6) = 0)"
    by (elim exE conjE)
  from d(1) t(4) have db: "ta = 2500" "tb = 4294966796"
    by simp_all
  note d' = d(2) [THEN mp, OF neg(2), unfolded db]
  note 6 = d' [THEN conjunct1] d' [THEN conjunct2, THEN conjunct2, THEN mp, OF below]
  from i t a(2) 1 2 3 4 5 6 show ?thesis
    by (intro conjI)
qed

text \<open>
  Three runs against the claim as first worded. With bias 3, \<^verbatim>\<open>1000 - 1500\<close> is stored
  as 4294966796; the first reading is 1000 and the marker of A stays 0, as it does until the
  timeout. With bias 2 the threshold of A is 0 and the first elapsed time is 0: the marker
  stays at the sentinel and the arrival is recorded at 7, not at the first poll. With bias
  4294965.5, a \<^verbatim>\<open>float\<close>, the product is rounded to 2147482752: line 70 computes a
  negative threshold for A, and \<^verbatim>\<open>1000 + 2147482752\<close> on line 71 overflows \<^verbatim>\<open>int\<close>.
\<close>

theorem nonpositive_threshold_counterexample:
  "(c_float_to_int (f32_mul 3 500) = Some 1500 \<and>
    thresholds 3 0 = Some (4294966796, 2500) \<and>
    fixed_step_clock 0 1000 1 - fixed_step_clock 0 1000 0 = 1000 \<and>
    arrival_a (race_after (fixed_step_clock 0 1000) (fixed_step_clock 0 1000 0)
      4294966796 2500 race_init 1) = 0 \<and>
    run_symmetric_race 3 0 (fixed_step_clock 0 1000)
      = Returns \<lparr>winner = 0, latency = 0, delta = 3000\<rparr>) \<and>
   (c_float_to_int (f32_mul 2 500) = Some 1000 \<and>
    thresholds 2 0 = Some (0, 2000) \<and>
    scripted_clock [0, 0, 7, 3000] 1 - scripted_clock [0, 0, 7, 3000] 0 = 0 \<and>
    arrival_a (race_after (scripted_clock [0, 0, 7, 3000]) (scripted_clock [0, 0, 7, 3000] 0)
      0 2000 race_init 1) = 0 \<and>
    run_symmetric_race 2 0 (scripted_clock [0, 0, 7, 3000])
      = Returns \<lparr>winner = 0, latency = 7, delta = 2993\<rparr>) \<and>
   (c_float_to_int (f32_mul (8589931 / 2) 500) = Some 2147482752 \<and>
    thresholds (8589931 / 2) 0 = None \<and>
    run_symmetric_race (8589931 / 2) 0 (fixed_step_clock 0 1000) = Undefined_Behaviour)"
  by code_simp

section \<open>How the thresholds are computed\<close>

text \<open>
  Claim C3, amended. Let \<open>i\<close> be \<^verbatim>\<open>(int)(bias * 500)\<close>, of magnitude at most 2147482647, so
  that lines 70 and 71 are defined. Then \<open>i\<close> is the single-precision product with its
  fractional part discarded (it is no larger in magnitude than the product and less than 1
  away from it), and the thresholds are computed: \<^verbatim>\<open>target_a\<close> is \<open>1000 - i + jitter\<close> and
  \<^verbatim>\<open>target_b\<close> is \<open>1000 + i\<close>, both as \<^verbatim>\<open>uint32_t\<close>, that is modulo \<open>2\<^sup>3\<^sup>2\<close>; the
  jitter is the cycle counter modulo 5.
\<close>

theorem thresholds_by_truncation:
  assumes "c_float_to_int (f32_mul bias 500) = Some i" and "\<bar>i\<bar> \<le> 2147482647"
  shows "\<bar>of_int i\<bar> \<le> \<bar>f32_mul bias 500\<bar> \<and> \<bar>f32_mul bias 500 - of_int i\<bar> < 1 \<and>
         (\<exists>target_a target_b.
            thresholds bias cycle_count = Some (target_a, target_b) \<and>
            uint target_a = (1000 - i + uint cycle_count mod 5) mod 2 ^ 32 \<and>
            uint target_b = (1000 + i) mod 2 ^ 32)"
proof -
  from assms(1) have "\<bar>of_int i\<bar> \<le> \<bar>f32_mul bias 500\<bar> \<and> \<bar>f32_mul bias 500 - of_int i\<bar> < 1"
    using c_float_to_int_truncates by blast
  moreover from assms have "thresholds bias cycle_count
      = Some (word_of_int (1000 - i) + cycle_count mod 5, word_of_int (1000 + i))"
    by (rule thresholds_defined)
  moreover have "uint (word_of_int (1000 - i) + cycle_count mod 5 :: 32 word)
      = (1000 - i + uint cycle_count mod 5) mod 2 ^ 32"
    by (rule uint_target_a)
  moreover have "uint (word_of_int (1000 + i) :: 32 word) = (1000 + i) mod 2 ^ 32"
    by (rule uint_word32)
  ultimately show ?thesis
    by blast
qed

text \<open>Bias 1/128 and cycle counter 9: the product is 3.90625, \<open>i\<close> is 3, the jitter 4.\<close>

theorem thresholds_by_truncation_witness:
  "c_float_to_int (f32_mul (1 / 128) 500) = Some 3 \<and> \<bar>3 :: int\<bar> \<le> 2147482647 \<and>
   thresholds (1 / 128) 9 = Some (1001, 1003) \<and>
   \<bar>of_int 3\<bar> \<le> \<bar>f32_mul (1 / 128) 500\<bar> \<and> \<bar>f32_mul (1 / 128) 500 - of_int 3\<bar> < 1 \<and>
   (\<exists>target_a target_b.
      thresholds (1 / 128) 9 = Some (target_a, target_b) \<and>
      uint target_a = (1000 - 3 + uint (9 :: 32 word) mod 5) mod 2 ^ 32 \<and>
      uint target_b = (1000 + 3) mod 2 ^ 32)"
proof -
  have i: "c_float_to_int (f32_mul (1 / 128) 500) = Some 3"
    by code_simp
  have small: "\<bar>3 :: int\<bar> \<le> 2147482647"
    by simp
  have t: "thresholds (1 / 128) 9 = Some (1001, 1003)"
    by code_simp
  note r = thresholds_by_truncation [OF i small, of 9]
  from i small t r [THEN conjunct1] r [THEN conjunct2, THEN conjunct1]
    r [THEN conjunct2, THEN conjunct2]
  show ?thesis
    by (intro conjI)
qed

text \<open>
  The thresholds are not those of the specification, which rounds to the nearest integer:
  for bias 1/128, a \<^verbatim>\<open>float\<close>, the product 3.90625 is exact, the specification gives 996
  and 1004, and lines 70 and 71 give 997 and 1003.
\<close>

theorem thresholds_rounding_counterexample:
  "thresholds (1 / 128) 0 = Some (997, 1003) \<and>
   spec_thresholds (1 / 128) 0 = (996, 1004) \<and>
   f32_mul (1 / 128) 500 = 125 / 32"
  by code_simp

section \<open>The tie-break\<close>

text \<open>
  When the first reading satisfies both thresholds, both markers receive that reading. If
  it is recorded as 0 and the loop goes on, the reading is 0 and both thresholds are 0, so
  the two markers keep receiving the same values.
\<close>

lemma both_thresholds_met_at_first_poll:
  assumes loop: "race_loop clock (clock 0) ta tb race_init = Some s"
    and a: "uint ta \<le> clock 1 - clock 0"
    and b: "uint tb \<le> clock 1 - clock 0"
  shows "arrival_a s = arrival_b s"
proof -
  let ?after = "race_after clock (clock 0) ta tb race_init"
  from race_loop_exit_index [OF loop race_init_not_timed_out]
  obtain m where m: "s = ?after m" "leaves_loop clock (clock 0) (?after m)"
    "\<forall>j<m. \<not> leaves_loop clock (clock 0) (?after j)"
    by blast
  have first: "arrival_a (?after 1) = word_of_int (clock 1 - clock 0)"
    "arrival_b (?after 1) = word_of_int (clock 1 - clock 0)"
    using a b by (simp_all add: arrival_a_iteration arrival_b_iteration race_init_def)
  from m(2) have "m \<noteq> 0"
    using race_init_stays [of clock] by (cases m) auto
  show ?thesis
  proof (cases "leaves_loop clock (clock 0) (?after 1)")
    case True
    with m(3) have "\<not> 1 < m"
      by blast
    with \<open>m \<noteq> 0\<close> have "m = 1"
      by simp
    with m(1) first show ?thesis
      by simp
  next
    case False
    then have zero: "(word_of_int (clock 1 - clock 0) :: 32 word) = 0"
      and small: "clock 1 - clock 0 \<le> 5000"
      using first by (auto simp: leaves_loop_def both_arrived_def timed_out_def race_init_def)
    moreover from a have "0 \<le> clock 1 - clock 0"
      using uint_ge_0 [of ta] by linarith
    ultimately have "clock 1 - clock 0 = 0"
      by (intro word32_of_small_int_eq_0)
    with a b have "uint ta = 0" and "uint tb = 0"
      using uint_ge_0 [of ta] uint_ge_0 [of tb] by linarith+
    then have "ta = tb"
      by (simp add: word_uint_eq_iff)
    moreover have "arrival_a race_init = arrival_b race_init"
      by (simp add: race_init_def)
    ultimately show ?thesis
      using m(1) by (simp add: race_after_same_target)
  qed
qed

text \<open>
  Claim C4. In every run, if the two arrival markers are equal when the loop is left, the
  winner code is 0 (path A), by the \<^verbatim>\<open><=\<close> of line 127. In particular, when the first
  reading of the loop satisfies both thresholds, the markers are equal when the loop is
  left and A wins.
\<close>

theorem equal_arrivals_favour_A:
  assumes "thresholds bias cycle_count = Some (target_a, target_b)"
    and "race_loop clock (clock 0) target_a target_b race_init = Some s"
  shows "run_symmetric_race bias cycle_count clock = Returns (decision s) \<and>
         (arrival_a s = arrival_b s \<longrightarrow> winner (decision s) = 0) \<and>
         (uint target_a \<le> clock 1 - clock 0 \<and> uint target_b \<le> clock 1 - clock 0 \<longrightarrow>
            arrival_a s = arrival_b s \<and> winner (decision s) = 0)"
  using assms
  by (auto simp: run_symmetric_race_decision winner_decision
      dest: both_thresholds_met_at_first_poll)

text \<open>Bias 0.5 and a clock whose first reading, 2000, is beyond both thresholds.\<close>

theorem equal_arrivals_favour_A_witness:
  "thresholds (1 / 2) 0 = Some (750, 1250) \<and>
   race_loop (fixed_step_clock 0 2000) (fixed_step_clock 0 2000 0) 750 1250 race_init
     = Some \<lparr>arrival_a = 2000, arrival_b = 2000, reads = 2\<rparr> \<and>
   uint (750 :: 32 word) \<le> fixed_step_clock 0 2000 1 - fixed_step_clock 0 2000 0 \<and>
   uint (1250 :: 32 word) \<le> fixed_step_clock 0 2000 1 - fixed_step_clock 0 2000 0 \<and>
   run_symmetric_race (1 / 2) 0 (fixed_step_clock 0 2000)
     = Returns \<lparr>winner = 0, latency = 2000, delta = 0\<rparr> \<and>
   winner (decision \<lparr>arrival_a = 2000, arrival_b = 2000, reads = 2\<rparr>) = 0"
proof -
  have t: "thresholds (1 / 2) 0 = Some (750, 1250)"
    by code_simp
  have l: "race_loop (fixed_step_clock 0 2000) (fixed_step_clock 0 2000 0) 750 1250 race_init
             = Some \<lparr>arrival_a = 2000, arrival_b = 2000, reads = 2\<rparr>"
    by code_simp
  have d: "decision \<lparr>arrival_a = 2000, arrival_b = 2000, reads = 2\<rparr>
             = \<lparr>winner = 0, latency = 2000, delta = 0\<rparr>"
    by code_simp
  from equal_arrivals_favour_A [OF t l] t l d show ?thesis
    by (simp add: fixed_step_clock_def)
qed

section \<open>Termination\<close>

text \<open>
  Claim C5. For all thresholds (so for every bias) and every clock with a reading more
  than 5000 after the start, the loop returns. It returns the state reached after the
  first iteration \<open>m + 1\<close> at which both markers are set or the reading exceeds 5000: at
  every earlier iteration a marker was still 0 and the reading was at most 5000. The call
  then returns the decision taken from that state. Nothing is asked of the thresholds, which
  may be out of reach; monotonicity of the clock is not needed.
\<close>

theorem race_loop_terminates:
  assumes "5000 < clock (Suc n) - clock 0"
  shows "\<exists>m s. m \<le> n \<and>
           race_loop clock (clock 0) target_a target_b race_init = Some s \<and>
           s = race_after clock (clock 0) target_a target_b race_init (Suc m) \<and>
           (both_arrived s \<or> 5000 < clock (Suc m) - clock 0) \<and>
           (\<forall>j<m. \<not> both_arrived (race_after clock (clock 0) target_a target_b race_init (Suc j))
                  \<and> clock (Suc j) - clock 0 \<le> 5000) \<and>
           (thresholds bias cycle_count = Some (target_a, target_b) \<longrightarrow>
              run_symmetric_race bias cycle_count clock = Returns (decision s))"
proof -
  let ?after = "race_after clock (clock 0) target_a target_b race_init"
  have reads: "reads (?after k) = Suc k" for k
    by (simp add: race_init_def)
  from assms have "leaves_loop clock (clock 0) (?after (Suc n))"
    unfolding leaves_loop_def timed_out_def reads by simp
  then obtain m' where m': "m' \<le> Suc n" "leaves_loop clock (clock 0) (?after m')"
    "\<forall>j<m'. \<not> leaves_loop clock (clock 0) (?after j)"
    using first_exit_exists by blast
  from m'(2) have "m' \<noteq> 0"
    using race_init_stays [of clock] by (cases m') auto
  then obtain m where m: "m' = Suc m"
    by (cases m') auto
  from m'(2,3) have loop: "race_loop clock (clock 0) target_a target_b race_init = Some (?after m')"
    by (intro race_loop_first_exit race_init_not_timed_out)
  have "both_arrived (?after (Suc m)) \<or> 5000 < clock (Suc m) - clock 0"
    using m'(2) unfolding m leaves_loop_def timed_out_def reads by simp
  moreover have "\<not> both_arrived (?after (Suc j)) \<and> clock (Suc j) - clock 0 \<le> 5000" if "j < m" for j
  proof -
    from that m have "Suc j < m'"
      by simp
    with m'(3) have "\<not> leaves_loop clock (clock 0) (?after (Suc j))"
      by blast
    then show ?thesis
      unfolding leaves_loop_def timed_out_def reads by simp
  qed
  moreover have "run_symmetric_race bias cycle_count clock = Returns (decision (?after (Suc m)))"
    if "thresholds bias cycle_count = Some (target_a, target_b)"
    using that loop m by (simp add: run_symmetric_race_decision del: race_after.simps)
  ultimately show ?thesis
    using m'(1) loop m by (intro exI [of _ m] exI [of _ "?after (Suc m)"]) (simp del: race_after.simps)
qed

text \<open>
  Bias 10 puts the thresholds at 4294963296 and 6000. With a clock advancing by 1000,
  neither is reached before the sixth reading, 6000, which ends the loop.
\<close>

theorem race_loop_terminates_witness:
  "5000 < fixed_step_clock 0 1000 (Suc 5) - fixed_step_clock 0 1000 0 \<and>
   thresholds 10 0 = Some (4294963296, 6000) \<and>
   (\<exists>m s. m \<le> (5::nat) \<and>
      race_loop (fixed_step_clock 0 1000) (fixed_step_clock 0 1000 0) 4294963296 6000 race_init
        = Some s \<and>
      run_symmetric_race 10 0 (fixed_step_clock 0 1000) = Returns (decision s)) \<and>
   run_symmetric_race 10 0 (fixed_step_clock 0 1000)
     = Returns \<lparr>winner = 0, latency = 0, delta = 6000\<rparr>"
proof -
  have late: "5000 < fixed_step_clock 0 1000 (Suc 5) - fixed_step_clock 0 1000 0"
    by (simp add: fixed_step_clock_def)
  have t: "thresholds 10 0 = Some (4294963296, 6000)"
    by code_simp
  have run: "run_symmetric_race 10 0 (fixed_step_clock 0 1000)
     = Returns \<lparr>winner = 0, latency = 0, delta = 6000\<rparr>"
    by code_simp
  from race_loop_terminates [OF late, of 4294963296 6000 10 0] t
  have "\<exists>m s. m \<le> (5::nat) \<and>
      race_loop (fixed_step_clock 0 1000) (fixed_step_clock 0 1000 0) 4294963296 6000 race_init
        = Some s \<and>
      run_symmetric_race 10 0 (fixed_step_clock 0 1000) = Returns (decision s)"
    by (elim exE conjE impE) (assumption, intro exI conjI, assumption+)
  with t late run show ?thesis
    by (intro conjI) assumption+
qed

section \<open>Bounds on the latency\<close>

text \<open>With a monotonic clock no marker exceeds the elapsed time of the last reading.\<close>

lemma markers_below_elapsed:
  assumes mono: "\<forall>k. clock k \<le> clock (Suc k)"
  shows "uint (arrival_a (race_after clock (clock 0) ta tb race_init n)) \<le> clock n - clock 0 \<and>
         uint (arrival_b (race_after clock (clock 0) ta tb race_init n)) \<le> clock n - clock 0"
proof (induction n)
  case 0
  show ?case
    by (simp add: race_init_def)
next
  case (Suc n)
  let ?s = "race_after clock (clock 0) ta tb race_init n"
  define e where "e = clock (Suc n) - clock 0"
  have reads: "reads ?s = Suc n"
    by (simp add: race_init_def)
  from mono have "clock n \<le> clock (Suc n)"
    by blast
  with Suc have a: "uint (arrival_a ?s) \<le> e" and b: "uint (arrival_b ?s) \<le> e"
    by (simp_all add: e_def)
  then have "0 \<le> e"
    using uint_ge_0 [of "arrival_a ?s"] by linarith
  then have w: "uint (word_of_int e :: 32 word) \<le> e"
    by (rule uint_word_of_nonneg_le)
  have "arrival_a (iteration clock (clock 0) ta tb ?s)
          = (if arrival_a ?s = 0 \<and> uint ta \<le> e then word_of_int e else arrival_a ?s)"
    "arrival_b (iteration clock (clock 0) ta tb ?s)
          = (if arrival_b ?s = 0 \<and> uint tb \<le> e then word_of_int e else arrival_b ?s)"
    unfolding arrival_a_iteration arrival_b_iteration reads e_def by (rule refl)+
  with a b w show ?case
    unfolding e_def [symmetric] by (simp del: word_of_int_eq_0_iff)
qed

text \<open>
  Claim C6. For every bias and every monotonic clock, the latency of a returned result is
  non-negative and at most 5000 plus the difference of the last two clock readings of the
  run (readings number \<open>reads s - 1\<close> and \<open>reads s - 2\<close>; the run takes at least two, the
  start and one in the loop).
\<close>

theorem latency_bounded:
  assumes "run_symmetric_race bias cycle_count clock = Returns r"
    and "\<forall>k. clock k \<le> clock (Suc k)"
  shows "\<exists>target_a target_b s.
           thresholds bias cycle_count = Some (target_a, target_b) \<and>
           race_loop clock (clock 0) target_a target_b race_init = Some s \<and>
           2 \<le> reads s \<and> 0 \<le> latency r \<and>
           latency r \<le> 5000 + (clock (reads s - 1) - clock (reads s - 2))"
proof -
  from assms(1) obtain ta tb s where run:
    "thresholds bias cycle_count = Some (ta, tb)"
    "race_loop clock (clock 0) ta tb race_init = Some s"
    "r = decision s"
    by (rule run_symmetric_race_Returns)
  let ?after = "race_after clock (clock 0) ta tb race_init"
  have reads: "reads (?after k) = Suc k" for k
    by (simp add: race_init_def)
  from race_loop_exit_index [OF run(2) race_init_not_timed_out]
  obtain m' where m': "s = ?after m'" "leaves_loop clock (clock 0) (?after m')"
    "\<forall>j<m'. \<not> leaves_loop clock (clock 0) (?after j)"
    by blast
  from m'(2) have "m' \<noteq> 0"
    using race_init_stays [of clock] by (cases m') auto
  then obtain m where m: "m' = Suc m"
    by (cases m') auto
  with m'(3) have "\<not> leaves_loop clock (clock 0) (?after m)"
    by simp
  then have before: "clock m - clock 0 \<le> 5000"
    unfolding leaves_loop_def timed_out_def reads by simp
  have "latency r \<le> uint (arrival_a s)"
    by (simp add: run(3) latency_decision)
  also have "\<dots> \<le> clock (Suc m) - clock 0"
    using markers_below_elapsed [OF assms(2), of ta tb "Suc m"] m'(1) m by simp
  also from before have "\<dots> \<le> 5000 + (clock (Suc m) - clock m)"
    by simp
  finally have "latency r \<le> 5000 + (clock (Suc m) - clock m)" .
  moreover have "0 \<le> latency r"
    by (simp add: run(3) latency_decision)
  moreover have "reads s = Suc (Suc m)"
    unfolding m'(1) reads m ..
  ultimately show ?thesis
    using run(1,2) by (intro exI [of _ ta] exI [of _ tb] exI [of _ s]) simp
qed

text \<open>Bias 0 and one reading of 7000: the latency 7000 is 5000 plus less than one step.\<close>

theorem latency_bounded_witness:
  "run_symmetric_race 0 0 (fixed_step_clock 0 7000)
     = Returns \<lparr>winner = 0, latency = 7000, delta = 0\<rparr> \<and>
   (\<forall>k. fixed_step_clock 0 7000 k \<le> fixed_step_clock 0 7000 (Suc k)) \<and>
   (\<exists>target_a target_b s.
      thresholds 0 0 = Some (target_a, target_b) \<and>
      race_loop (fixed_step_clock 0 7000) (fixed_step_clock 0 7000 0) target_a target_b race_init
        = Some s \<and>
      2 \<le> reads s \<and> 0 \<le> latency \<lparr>winner = 0, latency = 7000, delta = 0\<rparr> \<and>
      latency \<lparr>winner = 0, latency = 7000, delta = 0\<rparr>
        \<le> 5000 + (fixed_step_clock 0 7000 (reads s - 1) - fixed_step_clock 0 7000 (reads s - 2)))"
proof -
  have run: "run_symmetric_race 0 0 (fixed_step_clock 0 7000)
     = Returns \<lparr>winner = 0, latency = 7000, delta = 0\<rparr>"
    by code_simp
  have mono: "\<forall>k. fixed_step_clock 0 7000 k \<le> fixed_step_clock 0 7000 (Suc k)"
    by (simp add: fixed_step_clock_def)
  from latency_bounded [OF run mono] run mono show ?thesis
    by (intro conjI) assumption+
qed

section \<open>Determinism\<close>

text \<open>The loop uses the clock through the elapsed times \<open>clock k - start\<close> only.\<close>

lemma race_loop_elapsed_imp:
  assumes "race_loop clock start ta tb s = Some r"
    and "\<forall>k. clock' k - start' = clock k - start"
  shows "race_loop clock' start' ta tb s = Some r"
  using assms
proof (induction rule: race_loop_induct)
  case (iterate loop clock start ta tb s r)
  from iterate(3) have it: "iteration clock' start' ta tb s = iteration clock start ta tb s"
    by (simp add: iteration_def)
  show ?case
  proof (cases "arrival_a s = 0 \<or> arrival_b s = 0")
    case False
    with iterate(2) show ?thesis
      by (subst race_loop.simps) simp
  next
    case open_s: True
    show ?thesis
    proof (cases "5000 < clock (reads s) - start")
      case True
      with open_s iterate(2,3) show ?thesis
        by (subst race_loop.simps) (simp add: Let_def it)
    next
      case False
      with open_s iterate(2) have "loop clock start ta tb (iteration clock start ta tb s) = Some r"
        by (simp add: Let_def)
      then have "race_loop clock' start' ta tb (iteration clock start ta tb s) = Some r"
        using iterate(3) by (rule iterate(1))
      with False open_s iterate(3) show ?thesis
        by (subst race_loop.simps) (simp add: Let_def it)
    qed
  qed
qed

lemma race_loop_elapsed_cong:
  assumes "\<forall>k. clock' k - start' = clock k - start"
  shows "race_loop clock' start' ta tb s = race_loop clock start ta tb s"
proof (cases "race_loop clock start ta tb s")
  case (Some r)
  then have "race_loop clock' start' ta tb s = Some r"
    using assms by (rule race_loop_elapsed_imp)
  with Some show ?thesis
    by (simp only:)
next
  case None
  show ?thesis
  proof (cases "race_loop clock' start' ta tb s")
    case (Some r)
    moreover from assms have "\<forall>k. clock k - start = clock' k - start'"
      by simp
    ultimately have "race_loop clock start ta tb s = Some r"
      by (rule race_loop_elapsed_imp)
    with None show ?thesis
      by simp
  next
    case None
    with \<open>race_loop clock start ta tb s = None\<close> show ?thesis
      by (simp only:)
  qed
qed

text \<open>
  Claim C7. Two calls with the same bias, the same entropy sample (the cycle counter modulo
  5) and clocks that give the same sequence of elapsed-time readings have the same outcome:
  the same result triple, or both no result. The two clocks may differ in their absolute
  readings, as those of two successive calls do.
\<close>

theorem run_symmetric_race_deterministic:
  assumes "cycle_count' mod 5 = cycle_count mod 5"
    and "\<forall>k. clock' k - clock' 0 = clock k - clock 0"
  shows "run_symmetric_race bias cycle_count' clock' = run_symmetric_race bias cycle_count clock"
proof -
  from assms(2)
  have "race_loop clock' (clock' 0) ta tb race_init = race_loop clock (clock 0) ta tb race_init"
    for ta tb
    by (rule race_loop_elapsed_cong)
  moreover from assms(1) have "thresholds bias cycle_count' = thresholds bias cycle_count"
    by (rule thresholds_jitter_cong)
  ultimately show ?thesis
    by (simp add: run_symmetric_race_def Let_def split: option.split prod.split)
qed

text \<open>Two calls with bias 0.25, cycle counters 12 and 7, started at times 123456 and 0.\<close>

theorem run_symmetric_race_deterministic_witness:
  "(12 :: 32 word) mod 5 = 7 mod 5 \<and>
   (\<forall>k. fixed_step_clock 123456 300 k - fixed_step_clock 123456 300 0
        = fixed_step_clock 0 300 k - fixed_step_clock 0 300 0) \<and>
   run_symmetric_race (1 / 4) 12 (fixed_step_clock 123456 300)
     = run_symmetric_race (1 / 4) 7 (fixed_step_clock 0 300) \<and>
   run_symmetric_race (1 / 4) 7 (fixed_step_clock 0 300)
     = Returns \<lparr>winner = 0, latency = 900, delta = 300\<rparr>"
proof -
  have j: "(12 :: 32 word) mod 5 = 7 mod 5"
    by simp
  have c: "\<forall>k. fixed_step_clock 123456 300 k - fixed_step_clock 123456 300 0
             = fixed_step_clock 0 300 k - fixed_step_clock 0 300 0"
    by (simp add: fixed_step_clock_def)
  have run: "run_symmetric_race (1 / 4) 7 (fixed_step_clock 0 300)
     = Returns \<lparr>winner = 0, latency = 900, delta = 300\<rparr>"
    by code_simp
  from run_symmetric_race_deterministic [OF j c, of "1 / 4"] j c run show ?thesis
    by (intro conjI) assumption+
qed

section \<open>The scenario with bias 0.5\<close>

lemma half_bias_product: "c_float_to_int (f32_mul (1 / 2) 500) = Some 250"
  by code_simp

lemma half_bias_thresholds:
  assumes "cycle_count mod 5 = 0"
  shows "thresholds (1 / 2) cycle_count = Some (750, 1250)"
  using assms by (simp add: thresholds_def half_bias_product in_int_range_def)

text \<open>The states of the run: before A arrives, between the two arrivals.\<close>

lemma half_bias_before_A:
  assumes "\<forall>k. 0 < k \<and> k < i \<longrightarrow> clock k - clock 0 < 750"
    and "n < i"
  shows "race_after clock (clock 0) 750 1250 race_init n
           = \<lparr>arrival_a = 0, arrival_b = 0, reads = Suc n\<rparr>"
  using assms(2)
proof (induction n)
  case 0
  show ?case
    by (simp add: race_init_def)
next
  case (Suc n)
  then have "race_after clock (clock 0) 750 1250 race_init n
           = \<lparr>arrival_a = 0, arrival_b = 0, reads = Suc n\<rparr>"
    by simp
  moreover from Suc.prems assms(1) have "clock (Suc n) - clock 0 < 750"
    by simp
  ultimately show ?case
    by (simp add: iteration_on)
qed

lemma half_bias_between:
  assumes before: "\<forall>k. 0 < k \<and> k < i \<longrightarrow> clock k - clock 0 < 750"
    and i: "0 < i" "750 \<le> clock i - clock 0" "clock i - clock 0 < 1250"
    and between: "\<forall>k. i < k \<and> k < j \<longrightarrow> clock k - clock 0 < 1250"
    and n: "i \<le> n" "n < j"
  shows "race_after clock (clock 0) 750 1250 race_init n
           = \<lparr>arrival_a = word_of_int (clock i - clock 0), arrival_b = 0, reads = Suc n\<rparr>"
  using n
proof (induction n rule: dec_induct)
  case base
  from i(1) obtain i' where i': "i = Suc i'"
    by (cases i) auto
  with before have "race_after clock (clock 0) 750 1250 race_init i'
           = \<lparr>arrival_a = 0, arrival_b = 0, reads = Suc i'\<rparr>"
    by (intro half_bias_before_A [of i]) simp_all
  with i(2,3) show ?case
    unfolding i' by (simp add: iteration_on)
next
  case (step n)
  then have "race_after clock (clock 0) 750 1250 race_init n
           = \<lparr>arrival_a = word_of_int (clock i - clock 0), arrival_b = 0, reads = Suc n\<rparr>"
    by simp
  moreover from step between have "clock (Suc n) - clock 0 < 1250"
    by simp
  moreover from i(2,3) have "(word_of_int (clock i - clock 0) :: 32 word) \<noteq> 0"
    by (intro word32_of_int_neq_0) simp_all
  ultimately show ?case
    by (simp add: iteration_on)
qed

text \<open>
  Claim C8, amended. With bias 0.5 and entropy sample 0 the thresholds are 750 and 1250.
  Let reading \<open>i\<close> be the first whose elapsed time is at least 750, let it be below 1250,
  and let reading \<open>j\<close> be the first whose elapsed time is at least 1250. If that elapsed
  time is below \<open>2\<^sup>3\<^sup>2\<close>, so that the 32-bit marker of B can hold it, the result is winner
  A, the elapsed time of reading \<open>i\<close> as latency, and the difference of the two elapsed
  times as delta. Every clock advancing in fixed steps that passes 750 before 1250 is such a
  clock. Monotonicity is not needed beyond what the hypotheses on \<open>i\<close> and \<open>j\<close> say.
\<close>

theorem half_bias_scenario:
  assumes jitter: "cycle_count mod 5 = 0"
    and order: "0 < i" "i < j"
    and before: "\<forall>k. 0 < k \<and> k < i \<longrightarrow> clock k - clock 0 < 750"
    and at_i: "750 \<le> clock i - clock 0" "clock i - clock 0 < 1250"
    and between: "\<forall>k. i < k \<and> k < j \<longrightarrow> clock k - clock 0 < 1250"
    and at_j: "1250 \<le> clock j - clock 0" "clock j - clock 0 < 2 ^ 32"
  shows "thresholds (1 / 2) cycle_count = Some (750, 1250) \<and>
         run_symmetric_race (1 / 2) cycle_count clock =
           Returns \<lparr>winner = 0, latency = clock i - clock 0,
                    delta = (clock j - clock 0) - (clock i - clock 0)\<rparr>"
proof -
  let ?after = "race_after clock (clock 0) 750 1250 race_init"
  let ?a = "word_of_int (clock i - clock 0) :: 32 word"
  let ?b = "word_of_int (clock j - clock 0) :: 32 word"
  have state: "?after n = \<lparr>arrival_a = ?a, arrival_b = 0, reads = Suc n\<rparr>"
    if "i \<le> n" "n < j" for n
    using before order(1) at_i between that by (rule half_bias_between)
  from order(2) obtain j' where j': "j = Suc j'" "i \<le> j'"
    by (cases j) auto
  have ua: "uint ?a = clock i - clock 0"
    using at_i by (intro uint_word32_of_int) simp_all
  have ub: "uint ?b = clock j - clock 0"
    using at_j by (intro uint_word32_of_int) simp_all
  have a0: "?a \<noteq> 0"
    using at_i by (intro word32_of_int_neq_0) simp_all
  have b0: "?b \<noteq> 0"
    using at_j by (intro word32_of_int_neq_0) simp_all
  from j' have "?after j' = \<lparr>arrival_a = ?a, arrival_b = 0, reads = Suc j'\<rparr>"
    by (intro state) simp_all
  with at_j(1) a0 have final: "?after j = \<lparr>arrival_a = ?a, arrival_b = ?b, reads = Suc j\<rparr>"
    unfolding j' by (simp add: iteration_on)
  with a0 b0 have "leaves_loop clock (clock 0) (?after j)"
    by (simp add: leaves_loop_def both_arrived_def)
  moreover have "\<not> leaves_loop clock (clock 0) (?after k)" if "k < j" for k
  proof (cases "k < i")
    case True
    with before have "?after k = \<lparr>arrival_a = 0, arrival_b = 0, reads = Suc k\<rparr>"
      by (intro half_bias_before_A [of i])
    moreover from True before have "clock k - clock 0 < 750"
      by (cases "k = 0") simp_all
    ultimately show ?thesis
      by (simp add: leaves_loop_def both_arrived_def timed_out_def)
  next
    case False
    with that have "?after k = \<lparr>arrival_a = ?a, arrival_b = 0, reads = Suc k\<rparr>"
      by (intro state) simp_all
    moreover from False that at_i(2) between have "clock k - clock 0 < 1250"
      by (cases "k = i") simp_all
    ultimately show ?thesis
      by (simp add: leaves_loop_def both_arrived_def timed_out_def)
  qed
  ultimately have "race_loop clock (clock 0) 750 1250 race_init = Some (?after j)"
    by (intro race_loop_first_exit race_init_not_timed_out) simp_all
  with half_bias_thresholds [OF jitter]
  have run: "run_symmetric_race (1 / 2) cycle_count clock = Returns (decision (?after j))"
    by (rule run_symmetric_race_decision)
  define ea where "ea = clock i - clock 0"
  define eb where "eb = clock j - clock 0"
  have final': "?after j = \<lparr>arrival_a = word_of_int ea, arrival_b = word_of_int eb, reads = Suc j\<rparr>"
    and ua': "uint (word_of_int ea :: 32 word) = ea"
    and ub': "uint (word_of_int eb :: 32 word) = eb"
    and order': "ea < eb"
    using final ua ub at_i at_j by (simp_all only: ea_def eb_def)
  have "winner (decision (?after j)) = 0"
    using order' by (simp add: winner_decision final' word_le_def ua' ub')
  moreover have "latency (decision (?after j)) = ea"
    using order' by (simp add: latency_decision final' ua' ub')
  moreover have "delta (decision (?after j)) = eb - ea"
    using order' by (simp add: delta_decision final' ua' ub')
  ultimately have "decision (?after j) = \<lparr>winner = 0, latency = ea, delta = eb - ea\<rparr>"
    by (cases "decision (?after j)") simp
  with run half_bias_thresholds [OF jitter] show ?thesis
    by (simp only: ea_def eb_def simp_thms)
qed

text \<open>A clock started at 40 and advancing by 300: A arrives at 900, B at 1500.\<close>

theorem half_bias_scenario_witness:
  "(10 :: 32 word) mod 5 = 0 \<and>
   fixed_step_clock 40 300 1 - fixed_step_clock 40 300 0 = 300 \<and>
   fixed_step_clock 40 300 2 - fixed_step_clock 40 300 0 = 600 \<and>
   fixed_step_clock 40 300 3 - fixed_step_clock 40 300 0 = 900 \<and>
   fixed_step_clock 40 300 4 - fixed_step_clock 40 300 0 = 1200 \<and>
   fixed_step_clock 40 300 5 - fixed_step_clock 40 300 0 = 1500 \<and>
   thresholds (1 / 2) 10 = Some (750, 1250) \<and>
   run_symmetric_race (1 / 2) 10 (fixed_step_clock 40 300)
     = Returns \<lparr>winner = 0, latency = 900, delta = 600\<rparr>"
proof -
  have h: "(10 :: 32 word) mod 5 = 0" "(0 :: nat) < 3" "(3 :: nat) < 5"
    "\<forall>k. 0 < k \<and> k < 3 \<longrightarrow> fixed_step_clock 40 300 k - fixed_step_clock 40 300 0 < 750"
    "750 \<le> fixed_step_clock 40 300 3 - fixed_step_clock 40 300 0"
    "fixed_step_clock 40 300 3 - fixed_step_clock 40 300 0 < 1250"
    "\<forall>k. 3 < k \<and> k < 5 \<longrightarrow> fixed_step_clock 40 300 k - fixed_step_clock 40 300 0 < 1250"
    "1250 \<le> fixed_step_clock 40 300 5 - fixed_step_clock 40 300 0"
    "fixed_step_clock 40 300 5 - fixed_step_clock 40 300 0 < 2 ^ 32"
    by (simp_all add: fixed_step_clock_def)
  have e: "fixed_step_clock 40 300 3 - fixed_step_clock 40 300 0 = 900"
    "fixed_step_clock 40 300 5 - fixed_step_clock 40 300 0 = 1500"
    "fixed_step_clock 40 300 1 - fixed_step_clock 40 300 0 = 300"
    "fixed_step_clock 40 300 2 - fixed_step_clock 40 300 0 = 600"
    "fixed_step_clock 40 300 4 - fixed_step_clock 40 300 0 = 1200"
    by (simp_all add: fixed_step_clock_def)
  from half_bias_scenario [OF h, unfolded e]
  have "thresholds (1 / 2) 10 = Some (750, 1250) \<and>
        run_symmetric_race (1 / 2) 10 (fixed_step_clock 40 300)
          = Returns \<lparr>winner = 0, latency = 900, delta = 600\<rparr>"
    by simp
  with h(1) e(3,4,1,5,2) show ?thesis
    by (intro conjI) (assumption | erule conjunct1 | erule conjunct2)+
qed

text \<open>
  Without the bound on the second arrival the scenario fails. A monotonic clock reads 0 at
  the start, then 800, then 4294967301: A arrives at 800, and line 113 stores the arrival
  of B as \<^verbatim>\<open>(uint32_t)4294967301\<close>, which is 5, so that B is declared the winner.
\<close>

theorem half_bias_giant_step_counterexample:
  "scripted_clock [0, 800, 4294967301] 0 = 0 \<and>
   scripted_clock [0, 800, 4294967301] 1 = 800 \<and>
   scripted_clock [0, 800, 4294967301] 2 = 4294967301 \<and>
   thresholds (1 / 2) 0 = Some (750, 1250) \<and>
   run_symmetric_race (1 / 2) 0 (scripted_clock [0, 800, 4294967301])
     = Returns \<lparr>winner = 1, latency = 5, delta = 795\<rparr>"
  by code_simp

section \<open>A timeout with one arrival\<close>

text \<open>
  Claim C9. If the loop is left with exactly one marker set, it was left by the timeout
  (the last reading exceeds 5000), and the result names as winner the path whose marker is
  still 0, with latency 0 and with the marker of the other path as delta.
\<close>

theorem one_arrival_at_timeout:
  assumes "thresholds bias cycle_count = Some (target_a, target_b)"
    and "race_loop clock (clock 0) target_a target_b race_init = Some s"
    and "(arrival_a s = 0) \<noteq> (arrival_b s = 0)"
  shows "timed_out clock (clock 0) s \<and>
         run_symmetric_race bias cycle_count clock = Returns (decision s) \<and>
         winner (decision s) = (if arrival_a s = 0 then 0 else 1) \<and>
         latency (decision s) = 0 \<and>
         delta (decision s) = (if arrival_a s = 0 then uint (arrival_b s) else uint (arrival_a s))"
proof -
  from race_loop_exit_index [OF assms(2) race_init_not_timed_out] assms(3)
  have "timed_out clock (clock 0) s"
    by (auto simp: leaves_loop_def both_arrived_def)
  moreover have "winner (decision s) = (if arrival_a s = 0 then 0 else 1)"
    using assms(3) by (auto simp: winner_decision)
  moreover have "latency (decision s) = 0"
    using assms(3) by (auto simp: latency_decision)
  moreover
  have "delta (decision s) = (if arrival_a s = 0 then uint (arrival_b s) else uint (arrival_a s))"
    using assms(3) by (auto simp: delta_decision)
  ultimately show ?thesis
    using assms(1,2) by (simp add: run_symmetric_race_decision)
qed

text \<open>
  Two runs with a clock advancing by 1000. With bias 3 the threshold of A is 4294966796: B
  arrives at 3000, A never does, and A wins. With bias -3 the roles are exchanged.
\<close>

theorem one_arrival_at_timeout_witness:
  "(thresholds 3 0 = Some (4294966796, 2500) \<and>
    race_loop (fixed_step_clock 0 1000) (fixed_step_clock 0 1000 0) 4294966796 2500 race_init
      = Some \<lparr>arrival_a = 0, arrival_b = 3000, reads = 7\<rparr> \<and>
    run_symmetric_race 3 0 (fixed_step_clock 0 1000)
      = Returns \<lparr>winner = 0, latency = 0, delta = 3000\<rparr>) \<and>
   (thresholds (- 3) 0 = Some (2500, 4294966796) \<and>
    race_loop (fixed_step_clock 0 1000) (fixed_step_clock 0 1000 0) 2500 4294966796 race_init
      = Some \<lparr>arrival_a = 3000, arrival_b = 0, reads = 7\<rparr> \<and>
    run_symmetric_race (- 3) 0 (fixed_step_clock 0 1000)
      = Returns \<lparr>winner = 1, latency = 0, delta = 3000\<rparr>)"
proof -
  have t: "thresholds 3 0 = Some (4294966796, 2500)"
    by code_simp
  have l: "race_loop (fixed_step_clock 0 1000) (fixed_step_clock 0 1000 0) 4294966796 2500
             race_init = Some \<lparr>arrival_a = 0, arrival_b = 3000, reads = 7\<rparr>"
    by code_simp
  have t': "thresholds (- 3) 0 = Some (2500, 4294966796)"
    by code_simp
  have l': "race_loop (fixed_step_clock 0 1000) (fixed_step_clock 0 1000 0) 2500 4294966796
              race_init = Some \<lparr>arrival_a = 3000, arrival_b = 0, reads = 7\<rparr>"
    by code_simp
  from one_arrival_at_timeout [OF t l] one_arrival_at_timeout [OF t' l'] t l t' l'
  show ?thesis
    by simp
qed

section \<open>The arrival markers\<close>

text \<open>
  Claim C10, amended. In every state \<open>s\<close> of the loop, for either path: the marker is 0 or
  positive; once it is not 0 it keeps its value through any number \<open>k\<close> of further
  iterations; an iteration changes it only from 0, only when the reading meets the
  threshold, and only to the reading as \<^verbatim>\<open>uint32_t\<close>. Hence a reading of 0, and any
  reading that is a multiple of \<open>2\<^sup>3\<^sup>2\<close>, leaves the marker at 0 and the arrival is
  deferred; a strictly positive reading below \<open>2\<^sup>3\<^sup>2\<close> that meets the threshold sets
  the marker to that reading, which is not 0; and any reading that meets the threshold and
  is not a multiple of \<open>2\<^sup>3\<^sup>2\<close> sets the marker to its remainder modulo \<open>2\<^sup>3\<^sup>2\<close>.
\<close>

theorem arrival_markers_set_once:
  "0 \<le> uint (arrival_a s) \<and> 0 \<le> uint (arrival_b s) \<and>
   (arrival_a s \<noteq> 0 \<longrightarrow> arrival_a (race_after clock start ta tb s k) = arrival_a s) \<and>
   (arrival_b s \<noteq> 0 \<longrightarrow> arrival_b (race_after clock start ta tb s k) = arrival_b s) \<and>
   (arrival_a (iteration clock start ta tb s) \<noteq> arrival_a s \<longrightarrow>
      arrival_a s = 0 \<and> uint ta \<le> clock (reads s) - start \<and>
      arrival_a (iteration clock start ta tb s) = word_of_int (clock (reads s) - start)) \<and>
   (arrival_b (iteration clock start ta tb s) \<noteq> arrival_b s \<longrightarrow>
      arrival_b s = 0 \<and> uint tb \<le> clock (reads s) - start \<and>
      arrival_b (iteration clock start ta tb s) = word_of_int (clock (reads s) - start)) \<and>
   (arrival_a s = 0 \<and> (clock (reads s) - start) mod 2 ^ 32 = 0 \<longrightarrow>
      arrival_a (iteration clock start ta tb s) = 0) \<and>
   (arrival_b s = 0 \<and> (clock (reads s) - start) mod 2 ^ 32 = 0 \<longrightarrow>
      arrival_b (iteration clock start ta tb s) = 0) \<and>
   (arrival_a s = 0 \<and> uint ta \<le> clock (reads s) - start \<and>
    0 < clock (reads s) - start \<and> clock (reads s) - start < 2 ^ 32 \<longrightarrow>
      arrival_a (iteration clock start ta tb s) \<noteq> 0 \<and>
      uint (arrival_a (iteration clock start ta tb s)) = clock (reads s) - start) \<and>
   (arrival_b s = 0 \<and> uint tb \<le> clock (reads s) - start \<and>
    0 < clock (reads s) - start \<and> clock (reads s) - start < 2 ^ 32 \<longrightarrow>
      arrival_b (iteration clock start ta tb s) \<noteq> 0 \<and>
      uint (arrival_b (iteration clock start ta tb s)) = clock (reads s) - start) \<and>
   (arrival_a s = 0 \<and> uint ta \<le> clock (reads s) - start \<and>
    (clock (reads s) - start) mod 2 ^ 32 \<noteq> 0 \<longrightarrow>
      arrival_a (iteration clock start ta tb s) \<noteq> 0 \<and>
      uint (arrival_a (iteration clock start ta tb s)) = (clock (reads s) - start) mod 2 ^ 32) \<and>
   (arrival_b s = 0 \<and> uint tb \<le> clock (reads s) - start \<and>
    (clock (reads s) - start) mod 2 ^ 32 \<noteq> 0 \<longrightarrow>
      arrival_b (iteration clock start ta tb s) \<noteq> 0 \<and>
      uint (arrival_b (iteration clock start ta tb s)) = (clock (reads s) - start) mod 2 ^ 32)"
proof -
  define c where "c = clock (reads s) - start"
  have a: "arrival_a (iteration clock start ta tb s)
             = (if arrival_a s = 0 \<and> uint ta \<le> c then word_of_int c else arrival_a s)"
    and b: "arrival_b (iteration clock start ta tb s)
             = (if arrival_b s = 0 \<and> uint tb \<le> c then word_of_int c else arrival_b s)"
    unfolding c_def by (rule arrival_a_iteration arrival_b_iteration)+
  have pos: "(word_of_int c :: 32 word) \<noteq> 0 \<and> uint (word_of_int c :: 32 word) = c"
    if "0 < c" "c < 2 ^ 32"
    using that by (simp add: word32_of_int_neq_0 uint_word32_of_int)
  have low: "(word_of_int c :: 32 word) \<noteq> 0 \<and> uint (word_of_int c :: 32 word) = c mod 2 ^ 32"
    if "c mod 2 ^ 32 \<noteq> 0"
    using that by (simp add: word_of_int_eq_0_iff mod_eq_0_iff_dvd uint_word32)
  have "arrival_a s \<noteq> 0 \<longrightarrow> arrival_a (race_after clock start ta tb s k) = arrival_a s"
    by (simp add: arrival_a_kept)
  moreover
  have "arrival_b s \<noteq> 0 \<longrightarrow> arrival_b (race_after clock start ta tb s k) = arrival_b s"
    by (simp add: arrival_b_kept)
  moreover have "arrival_a (iteration clock start ta tb s) \<noteq> arrival_a s \<longrightarrow>
      arrival_a s = 0 \<and> uint ta \<le> c \<and> arrival_a (iteration clock start ta tb s) = word_of_int c"
    unfolding a by (simp del: word_of_int_eq_0_iff)
  moreover have "arrival_b (iteration clock start ta tb s) \<noteq> arrival_b s \<longrightarrow>
      arrival_b s = 0 \<and> uint tb \<le> c \<and> arrival_b (iteration clock start ta tb s) = word_of_int c"
    unfolding b by (simp del: word_of_int_eq_0_iff)
  moreover
  have "arrival_a s = 0 \<and> c mod 2 ^ 32 = 0 \<longrightarrow> arrival_a (iteration clock start ta tb s) = 0"
    unfolding a by (simp add: word_of_int_eq_0_iff mod_eq_0_iff_dvd)
  moreover
  have "arrival_b s = 0 \<and> c mod 2 ^ 32 = 0 \<longrightarrow> arrival_b (iteration clock start ta tb s) = 0"
    unfolding b by (simp add: word_of_int_eq_0_iff mod_eq_0_iff_dvd)
  moreover have "arrival_a s = 0 \<and> uint ta \<le> c \<and> 0 < c \<and> c < 2 ^ 32 \<longrightarrow>
      arrival_a (iteration clock start ta tb s) \<noteq> 0 \<and>
      uint (arrival_a (iteration clock start ta tb s)) = c"
    unfolding a using pos by (simp del: word_of_int_eq_0_iff)
  moreover have "arrival_b s = 0 \<and> uint tb \<le> c \<and> 0 < c \<and> c < 2 ^ 32 \<longrightarrow>
      arrival_b (iteration clock start ta tb s) \<noteq> 0 \<and>
      uint (arrival_b (iteration clock start ta tb s)) = c"
    unfolding b using pos by (simp del: word_of_int_eq_0_iff)
  moreover have "arrival_a s = 0 \<and> uint ta \<le> c \<and> c mod 2 ^ 32 \<noteq> 0 \<longrightarrow>
      arrival_a (iteration clock start ta tb s) \<noteq> 0 \<and>
      uint (arrival_a (iteration clock start ta tb s)) = c mod 2 ^ 32"
    unfolding a using low by (simp del: word_of_int_eq_0_iff)
  moreover have "arrival_b s = 0 \<and> uint tb \<le> c \<and> c mod 2 ^ 32 \<noteq> 0 \<longrightarrow>
      arrival_b (iteration clock start ta tb s) \<noteq> 0 \<and>
      uint (arrival_b (iteration clock start ta tb s)) = c mod 2 ^ 32"
    unfolding b using low by (simp del: word_of_int_eq_0_iff)
  ultimately show ?thesis
    unfolding c_def by (simp only: uint_ge_0 simp_thms)
qed

text \<open>
  Thresholds 0 and 2000 (bias 2) and the readings 0, 0, 7, 3000: the arrival of A is
  deferred at the reading 0 and recorded at 7, that of B is recorded at 3000, and both
  stay.
\<close>

theorem arrival_markers_set_once_witness:
  "arrival_a (iteration (scripted_clock [0, 0, 7, 3000]) 0 0 2000
      \<lparr>arrival_a = 0, arrival_b = 0, reads = 1\<rparr>) = 0 \<and>
   uint (arrival_a (iteration (scripted_clock [0, 0, 7, 3000]) 0 0 2000
      \<lparr>arrival_a = 0, arrival_b = 0, reads = 2\<rparr>)) = 7 \<and>
   arrival_a (race_after (scripted_clock [0, 0, 7, 3000]) 0 0 2000
      \<lparr>arrival_a = 7, arrival_b = 0, reads = 3\<rparr> 1) = 7 \<and>
   uint (arrival_b (iteration (scripted_clock [0, 0, 7, 3000]) 0 0 2000
      \<lparr>arrival_a = 7, arrival_b = 0, reads = 3\<rparr>)) = 3000 \<and>
   arrival_b (race_after (scripted_clock [0, 0, 7, 3000]) 0 0 2000
      \<lparr>arrival_a = 7, arrival_b = 3000, reads = 4\<rparr> 2) = 3000"
proof -
  let ?clock = "scripted_clock [0, 0, 7, 3000]"
  let ?s1 = "\<lparr>arrival_a = 0, arrival_b = 0, reads = 1\<rparr>"
  let ?s2 = "\<lparr>arrival_a = 0, arrival_b = 0, reads = 2\<rparr>"
  let ?s3 = "\<lparr>arrival_a = 7, arrival_b = 0, reads = 3\<rparr>"
  let ?s4 = "\<lparr>arrival_a = 7, arrival_b = 3000, reads = 4\<rparr>"
  have r: "?clock 1 = 0" "?clock 2 = 7" "?clock 3 = 3000"
    by code_simp+
  have "arrival_a ?s1 = 0 \<and> (?clock (reads ?s1) - 0) mod 2 ^ 32 = 0"
    by (simp add: r)
  with arrival_markers_set_once [of ?s1 ?clock 0 0 2000 0]
  have 1: "arrival_a (iteration ?clock 0 0 2000 ?s1) = 0"
    by blast
  have "arrival_a ?s2 = 0 \<and> uint (0 :: 32 word) \<le> ?clock (reads ?s2) - 0 \<and>
        0 < ?clock (reads ?s2) - 0 \<and> ?clock (reads ?s2) - 0 < 2 ^ 32"
    by (simp add: r)
  with arrival_markers_set_once [of ?s2 ?clock 0 0 2000 0]
  have "uint (arrival_a (iteration ?clock 0 0 2000 ?s2)) = ?clock (reads ?s2) - 0"
    by blast
  then have 2: "uint (arrival_a (iteration ?clock 0 0 2000 ?s2)) = 7"
    by (simp add: r)
  have "arrival_a ?s3 \<noteq> 0"
    by simp
  with arrival_markers_set_once [of ?s3 ?clock 0 0 2000 1]
  have "arrival_a (race_after ?clock 0 0 2000 ?s3 1) = arrival_a ?s3"
    by blast
  then have 3: "arrival_a (race_after ?clock 0 0 2000 ?s3 1) = 7"
    by simp
  have "arrival_b ?s3 = 0 \<and> uint (2000 :: 32 word) \<le> ?clock (reads ?s3) - 0 \<and>
        0 < ?clock (reads ?s3) - 0 \<and> ?clock (reads ?s3) - 0 < 2 ^ 32"
    by (simp add: r)
  with arrival_markers_set_once [of ?s3 ?clock 0 0 2000 0]
  have "uint (arrival_b (iteration ?clock 0 0 2000 ?s3)) = ?clock (reads ?s3) - 0"
    by blast
  then have 4: "uint (arrival_b (iteration ?clock 0 0 2000 ?s3)) = 3000"
    by (simp add: r)
  have "arrival_b ?s4 \<noteq> 0"
    by simp
  with arrival_markers_set_once [of ?s4 ?clock 0 0 2000 2]
  have "arrival_b (race_after ?clock 0 0 2000 ?s4 2) = arrival_b ?s4"
    by blast
  then have 5: "arrival_b (race_after ?clock 0 0 2000 ?s4 2) = 3000"
    by simp
  from 1 2 3 4 5 show ?thesis
    by (intro conjI)
qed

text \<open>
  The deferred arrival need not happen at the first strictly positive reading. With the
  same thresholds and the readings 0, 0, 4294967296, the threshold of A is met at the
  reading 0; the next reading is stored as \<^verbatim>\<open>(uint32_t)4294967296\<close>, which is 0, and the
  loop is left by the timeout with the marker of A still 0.
\<close>

theorem deferred_arrival_counterexample:
  "thresholds 2 0 = Some (0, 2000) \<and>
   scripted_clock [0, 0, 4294967296] 1 - scripted_clock [0, 0, 4294967296] 0 = 0 \<and>
   scripted_clock [0, 0, 4294967296] 2 - scripted_clock [0, 0, 4294967296] 0 = 4294967296 \<and>
   arrival_a (race_after (scripted_clock [0, 0, 4294967296]) 0 0 2000 race_init 1) = 0 \<and>
   arrival_a (race_after (scripted_clock [0, 0, 4294967296]) 0 0 2000 race_init 2) = 0 \<and>
   race_loop (scripted_clock [0, 0, 4294967296]) 0 0 2000 race_init
     = Some \<lparr>arrival_a = 0, arrival_b = 0, reads = 3\<rparr> \<and>
   run_symmetric_race 2 0 (scripted_clock [0, 0, 4294967296])
     = Returns \<lparr>winner = 0, latency = 0, delta = 0\<rparr>"
  by code_simp

end
